theory Spec2Isabelle
  imports Main "HOL-Library.AList"
begin

section \<open>JavaScript strings and objects\<close>

text \<open>
  A string is a list of code units. Header names, header values and host names reach the
  program through Node's HTTP parser, which yields code units below 256, so a code unit
  is a \<^typ>\<open>char\<close>. \<open>String.prototype.toLowerCase\<close> maps the capital letters of that
  range (A to Z, and U+00C0 to U+00DE except the multiplication sign U+00D7) to the code
  unit 32 above, and leaves every other code unit alone.
\<close>

definition lower_char :: "char \<Rightarrow> char" where
  "lower_char c =
     (let n = (of_char c :: nat)
      in if (65 \<le> n \<and> n \<le> 90) \<or> (192 \<le> n \<and> n \<le> 222 \<and> n \<noteq> 215)
         then char_of (n + 32) else c)"

definition toLowerCase :: "string \<Rightarrow> string" where
  "toLowerCase s = map lower_char s"

text \<open>\<open>s.endsWith(t)\<close>.\<close>

definition endsWith :: "string \<Rightarrow> string \<Rightarrow> bool" where
  "endsWith s t = (length t \<le> length s \<and> drop (length s - length t) s = t)"

text \<open>
  \<open>s.slice(start, fin)\<close>: a negative index counts from the end, both indices are clamped
  to the string, and an empty range gives the empty string.
\<close>

definition slice :: "string \<Rightarrow> int \<Rightarrow> int \<Rightarrow> string" where
  "slice s start fin =
     (let len = int (length s);
          from = (if start < 0 then max (len + start) 0 else min start len);
          to = (if fin < 0 then max (len + fin) 0 else min fin len)
      in take (nat (to - from)) (drop (nat from) s))"

text \<open>\<open>s.includes(":")\<close> and \<open>s.split(":")[0]\<close>.\<close>

definition includes_colon :: "string \<Rightarrow> bool" where
  "includes_colon s = (CHR '':'' \<in> set s)"

definition split_colon_0 :: "string \<Rightarrow> string" where
  "split_colon_0 s = takeWhile (\<lambda>c. c \<noteq> CHR '':'') s"

text \<open>A string is truthy when it is not empty.\<close>

definition truthy :: "string \<Rightarrow> bool" where
  "truthy s = (s \<noteq> [])"

text \<open>
  A plain object with string keys (\<open>Record<string, V>\<close>) and a \<open>Map\<close> are association
  lists with one entry per key: \<open>o[k] = v\<close> and \<open>m.set(k, v)\<close> are
  \<^const>\<open>AList.update\<close> (the entry is replaced where the key is present, and added at the
  end otherwise), \<open>m.delete(k)\<close> is \<^const>\<open>AList.delete\<close>, \<open>m.get(k)\<close> is
  \<^const>\<open>map_of\<close>. The order in which an object enumerates its keys plays no part in
  what follows, and the property name \<open>__proto__\<close> is outside the model.
\<close>

type_synonym 'v obj = "(string \<times> 'v) list"

definition has :: "('k \<times> 'v) list \<Rightarrow> 'k \<Rightarrow> bool" where
  "has m k = (map_of m k \<noteq> None)"

section \<open>The protocol package\<close>

text \<open>\<open>SUBDOMAIN_REGEX = /^[a-z0-9-]{3,63}$/\<close> and \<open>isValidSubdomain\<close>.\<close>

definition subdomain_char :: "char \<Rightarrow> bool" where
  "subdomain_char c =
     (let n = (of_char c :: nat)
      in (97 \<le> n \<and> n \<le> 122) \<or> (48 \<le> n \<and> n \<le> 57) \<or> n = 45)"

definition isValidSubdomain :: "string \<Rightarrow> bool" where
  "isValidSubdomain s = (3 \<le> length s \<and> length s \<le> 63 \<and> list_all subdomain_char s)"

type_synonym bytes = string
type_synonym headers = "string obj"

datatype phase = Req | Res

text \<open>
  The frames. The server reads a decoded message as \<open>any\<close>, so the fields it guards with
  \<open>||\<close> or a truthiness test may be absent: they are options here.
\<close>

datatype frame =
    Hello nat "string option"
  | RegisterTunnel "string option"
  | Registered string string
  | OpenStream string nat string string headers
  | ReqData string nat "bytes option"
  | RespStart string nat "nat option" "headers option"
  | RespData string nat "bytes option"
  | End string nat "phase option"
  | Error string "string option"
  | Ping
  | Pong

section \<open>The server\<close>

subsection \<open>Pure helpers\<close>

text \<open>\<open>const DOMAIN_BASE = process.env.DOMAIN_BASE || "localhost"\<close>.\<close>

definition DOMAIN_BASE :: "string option \<Rightarrow> string" where
  "DOMAIN_BASE env =
     (case env of None \<Rightarrow> ''localhost'' | Some b \<Rightarrow> if truthy b then b else ''localhost'')"

text \<open>
  \<open>generateRandomSubdomain\<close> is \<open>Math.random().toString(36).slice(2, 9)\<close>. The string
  \<open>Math.random().toString(36)\<close> is the runtime's, and is the argument here: it is
  \<open>"0"\<close> for the number 0, and otherwise \<open>"0."\<close> followed by the base-36 digits of the
  number, as many as the number needs (\<open>"0.i"\<close> for 0.5).
\<close>

definition generateRandomSubdomain :: "string \<Rightarrow> string" where
  "generateRandomSubdomain r = slice r 2 9"

definition extractSubdomain :: "string \<Rightarrow> string \<Rightarrow> string option" where
  "extractSubdomain host base =
     (if \<not> endsWith host base then None
      else let suffix = slice host 0 (- int (length base))
           in if \<not> endsWith suffix ''.'' then None
              else let sub = slice suffix 0 (- 1)
                   in if \<not> isValidSubdomain sub then None else Some sub)"

definition hop_by_hop :: "string list" where
  "hop_by_hop = [''transfer-encoding'', ''connection'', ''keep-alive'']"

fun normalizeHeaders_loop :: "headers \<Rightarrow> headers \<Rightarrow> headers" where
  "normalizeHeaders_loop out [] = out"
| "normalizeHeaders_loop out ((k, v) # rest) =
     (let lk = toLowerCase k
      in if lk \<in> set hop_by_hop then normalizeHeaders_loop out rest
         else normalizeHeaders_loop (AList.update k v out) rest)"

definition normalizeHeaders :: "headers \<Rightarrow> headers" where
  "normalizeHeaders h = normalizeHeaders_loop [] h"

subsection \<open>State\<close>

text \<open>
  A stream of a tunnel: the Fastify reply of the public request (named by the request's
  number), the handle of the deadline timer, and \<open>headersSent\<close>.
\<close>

record stream_entry =
  reply :: nat
  timeout :: nat
  headersSent :: bool

text \<open>\<open>TunnelInfo\<close>; \<open>ws\<close> names the control socket.\<close>

record TunnelInfo =
  ws :: nat
  tunnelId :: string
  subdomain :: string
  createdAt :: nat
  nextStreamId :: nat
  streams :: "(nat \<times> stream_entry) list"

text \<open>
  The variables of one \<open>/connect\<close> handler: \<open>assignedSubdomain\<close>, \<open>tunnelId\<close>, and
  whether the socket is still open.
\<close>

record conn =
  assignedSubdomain :: "string option"
  conn_tunnelId :: string
  live :: bool

text \<open>The payload \<open>{ error: msg }\<close> of a reply.\<close>

datatype payload = ErrorObj string

text \<open>
  What the server does to a public response: \<open>reply.code(c).send(p)\<close>,
  \<open>reply.hijack()\<close>, and on \<open>reply.raw\<close> \<open>writeHead(c, h)\<close>, \<open>write(b)\<close> and \<open>end()\<close>.
  The calls are recorded in order; what Fastify and Node make of a call is theirs.
\<close>

datatype pub_call =
    ReplySend nat payload
  | Hijack
  | WriteHead nat headers
  | Write bytes
  | EndResponse

text \<open>
  The server. A \<open>TunnelInfo\<close> is an object that the registry, the public handler and the
  deadline timer all hold by reference, so the objects live in \<open>heap\<close> (an object's
  address is its index, and no object is ever freed) and \<open>tunnels\<close> maps a subdomain to
  an address. \<open>timers\<close> holds the armed deadline timers with what each callback captured:
  the \<open>TunnelInfo\<close>, the stream id and the reply. \<open>sent\<close> lists the frames sent, with the
  socket of each, and \<open>pub\<close> the calls on public replies, with the request of each.
\<close>

record server =
  tunnels :: "(string \<times> nat) list"
  heap :: "TunnelInfo list"
  conns :: "(nat \<times> conn) list"
  timers :: "(nat \<times> nat \<times> nat \<times> nat) list"
  next_timer :: nat
  sent :: "(nat \<times> frame) list"
  pub :: "(nat \<times> pub_call) list"

definition init :: server where
  "init = \<lparr>tunnels = [], heap = [], conns = [], timers = [], next_timer = 0,
            sent = [], pub = []\<rparr>"

definition send :: "nat \<Rightarrow> frame \<Rightarrow> server \<Rightarrow> server" where
  "send w f s = s\<lparr>sent := sent s @ [(w, f)]\<rparr>"

definition call :: "nat \<Rightarrow> pub_call \<Rightarrow> server \<Rightarrow> server" where
  "call r c s = s\<lparr>pub := pub s @ [(r, c)]\<rparr>"

subsection \<open>The control endpoint\<close>

text \<open>
  A new control connection: \<open>assignedSubdomain\<close> is undefined and \<open>tunnelId\<close> is
  \<open>t_\<close> followed by \<open>Math.random().toString(36).slice(2, 10)\<close>. A connection has
  a number of its own; the number of a connection that exists opens no second one.
\<close>

definition ws_connect :: "nat \<Rightarrow> string \<Rightarrow> server \<Rightarrow> server" where
  "ws_connect c r s =
     (if has (conns s) c then s
      else s\<lparr>conns := AList.update c
                \<lparr>assignedSubdomain = None, conn_tunnelId = ''t_'' @ slice r 2 10, live = True\<rparr>
                (conns s)\<rparr>)"

text \<open>
  The \<open>REGISTER_TUNNEL\<close> case, on connection \<open>c\<close> with variables \<open>cn\<close>; \<open>r\<close> is
  \<open>Math.random().toString(36)\<close> and \<open>now\<close> is \<open>Date.now()\<close>.
\<close>

definition register_tunnel ::
  "nat \<Rightarrow> conn \<Rightarrow> string option \<Rightarrow> string \<Rightarrow> nat \<Rightarrow> server \<Rightarrow> server" where
  "register_tunnel c cn msg_subdomain r now s =
     (let requested =
            (case msg_subdomain of
               None \<Rightarrow> None
             | Some x \<Rightarrow> if truthy x \<and> isValidSubdomain x then Some x else None);
          sub =
            (case requested of
               None \<Rightarrow> generateRandomSubdomain r
             | Some x \<Rightarrow> if \<not> has (tunnels s) x then x else generateRandomSubdomain r)
      in if has (tunnels s) sub
         then send c (Error ''SUBDOMAIN_TAKEN'' (Some ''Please retry'')) s
         else send c (Registered sub (conn_tunnelId cn))
                (s\<lparr>conns := AList.update c (cn\<lparr>assignedSubdomain := Some sub\<rparr>) (conns s),
                   tunnels := AList.update sub (length (heap s)) (tunnels s),
                   heap := heap s @
                     [\<lparr>ws = c, tunnelId = conn_tunnelId cn, subdomain = sub, createdAt = now,
                       nextStreamId = 1, streams = []\<rparr>]\<rparr>))"

text \<open>
  \<open>assignedSubdomain ? tunnels.get(assignedSubdomain) : undefined\<close>, with the address of
  the object found.
\<close>

definition conn_info :: "conn \<Rightarrow> server \<Rightarrow> (nat \<times> TunnelInfo) option" where
  "conn_info cn s =
     (case assignedSubdomain cn of
        None \<Rightarrow> None
      | Some a \<Rightarrow>
          if \<not> truthy a then None
          else (case map_of (tunnels s) a of
                  None \<Rightarrow> None
                | Some p \<Rightarrow> if p < length (heap s) then Some (p, heap s ! p) else None))"

text \<open>\<open>statusCode || 200\<close>.\<close>

definition status_or_200 :: "nat option \<Rightarrow> nat" where
  "status_or_200 sc = (case sc of None \<Rightarrow> 200 | Some n \<Rightarrow> if n = 0 then 200 else n)"

text \<open>
  The \<open>RESP_START\<close> case. An exception of \<open>writeHead\<close> is caught and logged; the call
  is recorded either way.
\<close>

definition resp_start :: "conn \<Rightarrow> nat \<Rightarrow> nat option \<Rightarrow> headers option \<Rightarrow> server \<Rightarrow> server" where
  "resp_start cn streamId statusCode hdrs s =
     (case conn_info cn s of
        None \<Rightarrow> s
      | Some (p, info) \<Rightarrow>
          (case map_of (streams info) streamId of
             None \<Rightarrow> s
           | Some entry \<Rightarrow>
               if headersSent entry then s
               else call (reply entry)
                      (WriteHead (status_or_200 statusCode)
                         (normalizeHeaders (case hdrs of None \<Rightarrow> [] | Some h \<Rightarrow> h)))
                      (s\<lparr>heap := (heap s)
                           [p := info\<lparr>streams :=
                              AList.update streamId (entry\<lparr>headersSent := True\<rparr>)
                                (streams info)\<rparr>]\<rparr>)))"

text \<open>The \<open>RESP_DATA\<close> case.\<close>

definition resp_data :: "conn \<Rightarrow> nat \<Rightarrow> bytes option \<Rightarrow> server \<Rightarrow> server" where
  "resp_data cn streamId chunk s =
     (case conn_info cn s of
        None \<Rightarrow> s
      | Some (p, info) \<Rightarrow>
          (case map_of (streams info) streamId of
             None \<Rightarrow> s
           | Some entry \<Rightarrow>
               (case chunk of None \<Rightarrow> s | Some b \<Rightarrow> call (reply entry) (Write b) s)))"

text \<open>The \<open>END\<close> case.\<close>

definition end_stream :: "conn \<Rightarrow> nat \<Rightarrow> phase option \<Rightarrow> server \<Rightarrow> server" where
  "end_stream cn streamId ph s =
     (case conn_info cn s of
        None \<Rightarrow> s
      | Some (p, info) \<Rightarrow>
          (case map_of (streams info) streamId of
             None \<Rightarrow> s
           | Some entry \<Rightarrow>
               if ph = Some Res
               then call (reply entry) EndResponse
                      (s\<lparr>timers := AList.delete (timeout entry) (timers s),
                         heap := (heap s)
                           [p := info\<lparr>streams := AList.delete streamId (streams info)\<rparr>]\<rparr>)
               else s))"

text \<open>
  \<open>socket.on("message")\<close>: the switch on \<open>msg.t\<close>. A socket delivers no message once
  it is closed. \<open>HELLO\<close> only logs, and the frames of the other types are ignored.
\<close>

definition ws_message :: "nat \<Rightarrow> frame \<Rightarrow> string \<Rightarrow> nat \<Rightarrow> server \<Rightarrow> server" where
  "ws_message c msg r now s =
     (case map_of (conns s) c of
        None \<Rightarrow> s
      | Some cn \<Rightarrow>
          if \<not> live cn then s
          else (case msg of
                  Hello v token \<Rightarrow> s
                | RegisterTunnel x \<Rightarrow> register_tunnel c cn x r now s
                | RespStart tid streamId statusCode hdrs \<Rightarrow> resp_start cn streamId statusCode hdrs s
                | RespData tid streamId chunk \<Rightarrow> resp_data cn streamId chunk s
                | End tid streamId ph \<Rightarrow> end_stream cn streamId ph s
                | _ \<Rightarrow> s))"

text \<open>\<open>socket.on("close")\<close>, which a socket emits once.\<close>

definition ws_close :: "nat \<Rightarrow> server \<Rightarrow> server" where
  "ws_close c s =
     (case map_of (conns s) c of
        None \<Rightarrow> s
      | Some cn \<Rightarrow>
          if \<not> live cn then s
          else let s' = s\<lparr>conns := AList.update c (cn\<lparr>live := False\<rparr>) (conns s)\<rparr>
               in (case assignedSubdomain cn of
                     None \<Rightarrow> s'
                   | Some a \<Rightarrow>
                       if truthy a then s'\<lparr>tunnels := AList.delete a (tunnels s')\<rparr> else s'))"

subsection \<open>The public handler\<close>

text \<open>
  A value of \<open>req.headers\<close>: a string, an array of strings (a header Node keeps
  multi-valued, such as \<open>set-cookie\<close>), or \<open>undefined\<close>.
\<close>

datatype hval = HStr string | HArr "string list" | HUndef

text \<open>
  A public request: \<open>req.method\<close>, \<open>req.raw.url\<close>, \<open>req.headers\<close>,
  \<open>req.raw.readable\<close>, and the chunks that iterating \<open>req.raw\<close> yields.
\<close>

record http_request =
  req_method :: string
  req_url :: "string option"
  req_headers :: "hval obj"
  req_readable :: bool
  req_chunks :: "bytes list"

text \<open>\<open>req.headers.host || ""\<close>; Node types \<open>host\<close> as a string or \<open>undefined\<close>.\<close>

definition host_header :: "hval obj \<Rightarrow> string" where
  "host_header h = (case map_of h ''host'' of Some (HStr x) \<Rightarrow> x | _ \<Rightarrow> [])"

text \<open>The first three statements of the handler: \<open>rawHost\<close> and \<open>host\<close>, then \<open>sub\<close>.\<close>

definition request_host :: "http_request \<Rightarrow> string" where
  "request_host req =
     (let rawHost = toLowerCase (host_header (req_headers req))
      in if includes_colon rawHost then split_colon_0 rawHost else rawHost)"

definition request_sub :: "string option \<Rightarrow> http_request \<Rightarrow> string option" where
  "request_sub env req = extractSubdomain (request_host req) (DOMAIN_BASE env)"

text \<open>\<open>tunnels.get(sub)\<close>, as the address of the object.\<close>

definition tunnels_get :: "server \<Rightarrow> string \<Rightarrow> nat option" where
  "tunnels_get s sub =
     (case map_of (tunnels s) sub of
        None \<Rightarrow> None
      | Some p \<Rightarrow> if p < length (heap s) then Some p else None)"

text \<open>
  The object a request is routed to: none when the handler answers 404 or 502.
\<close>

definition routed :: "string option \<Rightarrow> server \<Rightarrow> http_request \<Rightarrow> nat option" where
  "routed env s req =
     (case request_sub env req of
        None \<Rightarrow> None
      | Some sub \<Rightarrow> if \<not> truthy sub then None else tunnels_get s sub)"

text \<open>
  \<open>info.nextStreamId++\<close> on a JavaScript number, a double: the counter starts at 1 and
  only grows, adding 1 is exact below \<open>2^53\<close>, and \<open>2^53 + 1\<close> rounds back to \<open>2^53\<close>.
\<close>

definition js_inc :: "nat \<Rightarrow> nat" where
  "js_inc n = (if n < 2 ^ 53 then n + 1 else n)"

text \<open>The loop that copies the string-valued request headers.\<close>

fun headers_loop :: "headers \<Rightarrow> hval obj \<Rightarrow> headers" where
  "headers_loop out [] = out"
| "headers_loop out ((k, v) # rest) =
     (case v of
        HStr x \<Rightarrow> headers_loop (AList.update k x out) rest
      | _ \<Rightarrow> headers_loop out rest)"

text \<open>
  \<open>app.all("/*")\<close>. The handler takes the next free timer handle for the deadline. The
  body of the request is forwarded chunk by chunk; the frames are all sent here, in the
  order the handler sends them.
\<close>

definition public_request :: "string option \<Rightarrow> nat \<Rightarrow> http_request \<Rightarrow> server \<Rightarrow> server" where
  "public_request env rid req s =
     (case request_sub env req of
        None \<Rightarrow> call rid (ReplySend 404 (ErrorObj ''Not Found'')) s
      | Some sub \<Rightarrow>
          if \<not> truthy sub then call rid (ReplySend 404 (ErrorObj ''Not Found'')) s
          else (case tunnels_get s sub of
                  None \<Rightarrow> call rid (ReplySend 502 (ErrorObj ''Tunnel not connected'')) s
                | Some p \<Rightarrow>
                    let info = heap s ! p;
                        streamId = nextStreamId info;
                        urlPath = (case req_url req of
                                     None \<Rightarrow> ''/''
                                   | Some u \<Rightarrow> if truthy u then u else ''/'');
                        hdrs = headers_loop [] (req_headers req);
                        t = next_timer s;
                        s1 = s\<lparr>heap := (heap s)
                                 [p := info\<lparr>nextStreamId := js_inc (nextStreamId info),
                                           streams := AList.update streamId
                                             \<lparr>reply = rid, timeout = t, headersSent = False\<rparr>
                                             (streams info)\<rparr>],
                               timers := AList.update t (p, streamId, rid) (timers s),
                               next_timer := Suc t\<rparr>;
                        s2 = call rid Hijack s1;
                        s3 = send (ws info)
                               (OpenStream (tunnelId info) streamId (req_method req) urlPath hdrs)
                               s2;
                        s4 = (if req_readable req \<and> req_method req \<notin> {''GET'', ''HEAD''}
                              then foldl (\<lambda>st chunk.
                                     send (ws info) (ReqData (tunnelId info) streamId (Some chunk)) st)
                                     s3 (req_chunks req)
                              else s3)
                    in send (ws info) (End (tunnelId info) streamId (Some Req)) s4))"

text \<open>
  The deadline callback of timer \<open>t\<close>, which captured the object at \<open>p\<close>, the stream id
  and the reply. An exception of \<open>send\<close> is swallowed; the call is recorded either way.
\<close>

definition timer_fires :: "nat \<Rightarrow> server \<Rightarrow> server" where
  "timer_fires t s =
     (case map_of (timers s) t of
        None \<Rightarrow> s
      | Some (p, streamId, rid) \<Rightarrow>
          call rid (ReplySend 504 (ErrorObj ''Upstream timeout''))
            (s\<lparr>timers := AList.delete t (timers s),
               heap := (heap s)
                 [p := (heap s ! p)\<lparr>streams := AList.delete streamId (streams (heap s ! p))\<rparr>]\<rparr>))"

subsection \<open>Runs\<close>

text \<open>
  What happens to the server: a control connection opens, delivers a message (with the
  values of \<open>Math.random().toString(36)\<close> and \<open>Date.now()\<close> of that moment) or closes, a
  public request arrives, a deadline timer fires. \<open>env\<close> is the environment variable
  \<open>DOMAIN_BASE\<close>.
\<close>

datatype event =
    WsConnect nat string
  | WsMessage nat frame string nat
  | WsClose nat
  | PublicRequest nat http_request
  | TimerFires nat

fun step :: "string option \<Rightarrow> server \<Rightarrow> event \<Rightarrow> server" where
  "step env s (WsConnect c r) = ws_connect c r s"
| "step env s (WsMessage c msg r now) = ws_message c msg r now s"
| "step env s (WsClose c) = ws_close c s"
| "step env s (PublicRequest rid req) = public_request env rid req s"
| "step env s (TimerFires t) = timer_fires t s"

definition run :: "string option \<Rightarrow> server \<Rightarrow> event list \<Rightarrow> server" where
  "run env s evs = foldl (step env) s evs"

text \<open>
  The stream ids that a run allocates on the object at \<open>p\<close>: the value of
  \<open>info.nextStreamId++\<close> at each request routed to it.
\<close>

fun allocs :: "string option \<Rightarrow> nat \<Rightarrow> server \<Rightarrow> event list \<Rightarrow> nat list" where
  "allocs env p s [] = []"
| "allocs env p s (ev # evs) =
     (case ev of
        PublicRequest rid req \<Rightarrow>
          if routed env s req = Some p then [nextStreamId (heap s ! p)] else []
      | _ \<Rightarrow> [])
     @ allocs env p (step env s ev) evs"

section \<open>The client\<close>

text \<open>
  \<open>opts.host\<close> and \<open>opts.port\<close>, and whether the environment variables
  \<open>SIMPLE_TUNNEL_STREAM\<close> and \<open>SIMPLE_TUNNEL_FORCE_IDENTITY\<close> are \<open>"true"\<close>.
\<close>

record config =
  opt_host :: string
  opt_port :: nat
  preferStream :: bool
  forceIdentity :: bool

datatype mode = BufferMode | StreamMode

text \<open>
  \<open>StreamCtx\<close>. \<open>body\<close> is the \<open>PassThrough\<close> of a stream in stream mode, as the chunks
  written to it and whether it was ended; \<open>chunks\<close> is the buffer of a stream in buffer
  mode. Both places that create a context set the other fields.
\<close>

record StreamCtx =
  mode :: mode
  body :: "(bytes list \<times> bool) option"
  chunks :: "bytes list option"
  ctx_headers :: headers
  ctx_method :: string
  ctx_path :: string
  ctx_tunnelId :: string

text \<open>
  The outbound request to the local origin: the parts of \<open>localUrl\<close>, the method, the
  headers, and the body (none, the piped \<open>PassThrough\<close>, or a buffer).
\<close>

datatype req_body = NoBody | Piped | Buffered bytes

record origin_request =
  url_host :: string
  url_port :: nat
  url_path :: string
  o_method :: string
  o_headers :: headers
  o_body :: req_body

text \<open>
  What the origin does with the request. \<open>await request(...)\<close> throws, or gives a
  status, the headers and a body; iterating the body yields chunks and then either ends
  or throws. The headers that undici's \<open>request\<close> gives are a plain object, from header
  names to strings or arrays of strings: \<open>PlainObject\<close>. \<open>objectifyHeaders\<close> takes
  its argument as \<open>any\<close>, so it also has an answer for a falsy value and for something
  that can be iterated and yields pairs of values, which is what its comment expects.
\<close>

datatype jsval = JStr string | JArr "string list" | JUndef

datatype raw_headers = NoHeaders | PlainObject "hval obj" | Pairs "(jsval \<times> jsval) list"

datatype body_end = Eof | BodyThrows

datatype origin_result =
    RequestThrows
  | Response nat raw_headers "bytes list" body_end

text \<open>
  The client: the \<open>streams\<close> map, the frames sent on the socket, and the requests made
  to the origin.
\<close>

record client =
  cstreams :: "(nat \<times> StreamCtx) list"
  wire :: "frame list"
  requests :: "origin_request list"

text \<open>
  \<open>toUpperCase\<close> on a method, which is an HTTP token: the letters a to z become A to Z.
\<close>

definition upper_char :: "char \<Rightarrow> char" where
  "upper_char c =
     (let n = (of_char c :: nat) in if 97 \<le> n \<and> n \<le> 122 then char_of (n - 32) else c)"

definition toUpperCase :: "string \<Rightarrow> string" where
  "toUpperCase s = map upper_char s"

text \<open>\<open>String(n)\<close> for a length.\<close>

fun decimal :: "nat \<Rightarrow> string" where
  "decimal n =
     (if n < 10 then [char_of (48 + n)]
      else decimal (n div 10) @ [char_of (48 + n mod 10)])"

fun objectifyHeaders_loop :: "headers \<Rightarrow> (jsval \<times> jsval) list \<Rightarrow> headers" where
  "objectifyHeaders_loop out [] = out"
| "objectifyHeaders_loop out ((k, v) # rest) =
     (case (k, v) of
        (JStr k', JStr v') \<Rightarrow> objectifyHeaders_loop (AList.update k' v' out) rest
      | _ \<Rightarrow> objectifyHeaders_loop out rest)"

text \<open>
  \<open>objectifyHeaders\<close>. A plain object cannot be iterated: \<open>for ... of\<close> over it throws
  before the first turn of the loop, the exception is caught, and the function returns
  the empty object it started with, whatever the plain object holds.
\<close>

definition objectifyHeaders :: "raw_headers \<Rightarrow> headers" where
  "objectifyHeaders h =
     (case h of
        NoHeaders \<Rightarrow> []
      | PlainObject ob \<Rightarrow> []
      | Pairs ps \<Rightarrow> objectifyHeaders_loop [] ps)"

text \<open>
  The \<open>accept-encoding\<close> rule that both handlers apply to the copy of the headers.
\<close>

definition origin_headers :: "config \<Rightarrow> headers \<Rightarrow> headers" where
  "origin_headers cfg h =
     (if forceIdentity cfg then AList.update ''accept-encoding'' ''identity'' h
      else AList.delete ''accept-encoding'' h)"

text \<open>
  The frames that the \<open>try\<close> block and the \<open>catch\<close> block send once the request is
  made; both handlers send the same ones. The \<open>try\<close> block sends \<open>RESP_START\<close>, one
  \<open>RESP_DATA\<close> for each chunk that is not empty, and \<open>END\<close>; an exception at any point
  moves to the \<open>catch\<close> block, which sends \<open>RESP_START\<close> with 502 and no headers, and
  \<open>END\<close>. What can throw is the request and the iteration of the body; \<open>ws.send\<close> on
  the open control socket does not.
\<close>

definition catch_frames :: "string \<Rightarrow> nat \<Rightarrow> frame list" where
  "catch_frames tid streamId =
     [RespStart tid streamId (Some 502) None, End tid streamId (Some Res)]"

definition response_frames :: "string \<Rightarrow> nat \<Rightarrow> origin_result \<Rightarrow> frame list" where
  "response_frames tid streamId origin =
     (case origin of
        RequestThrows \<Rightarrow> catch_frames tid streamId
      | Response statusCode respHeaders parts fin \<Rightarrow>
          RespStart tid streamId (Some statusCode) (Some (objectifyHeaders respHeaders))
          # map (\<lambda>chunk. RespData tid streamId (Some chunk)) (filter (\<lambda>chunk. chunk \<noteq> []) parts)
          @ (case fin of
               Eof \<Rightarrow> [End tid streamId (Some Res)]
             | BodyThrows \<Rightarrow> catch_frames tid streamId))"

text \<open>
  \<open>handleOpenStream(msg, bodyStream)\<close>, for a message with the fields \<open>tunnelId\<close>,
  \<open>streamId\<close>, \<open>method\<close>, \<open>path\<close> and \<open>headers\<close>; \<open>given\<close> says whether \<open>bodyStream\<close>
  was passed. The answer of the origin is \<open>origin\<close>, and the part of the function after
  \<open>await\<close> runs in the same step.
\<close>

definition handleOpenStream ::
  "config \<Rightarrow> string \<Rightarrow> nat \<Rightarrow> string \<Rightarrow> string \<Rightarrow> headers \<Rightarrow> bool \<Rightarrow> origin_result
   \<Rightarrow> client \<Rightarrow> client" where
  "handleOpenStream cfg tid streamId meth path hdrs given origin st =
     (let hs = origin_headers cfg hdrs;
          method = toUpperCase (if truthy meth then meth else ''GET'');
          st1 = (if given then st
                 else st\<lparr>cstreams := AList.update streamId
                          \<lparr>mode = StreamMode, body = Some ([], False), chunks = None,
                           ctx_headers = hs, ctx_method = method, ctx_path = path,
                           ctx_tunnelId = tid\<rparr> (cstreams st)\<rparr>);
          rq = \<lparr>url_host = opt_host cfg, url_port = opt_port cfg,
                url_path = (if truthy path then path else ''/''),
                o_method = method, o_headers = hs,
                o_body = (if method \<in> {''GET'', ''HEAD''} then NoBody else Piped)\<rparr>
      in st1\<lparr>requests := requests st1 @ [rq],
             wire := wire st1 @ response_frames tid streamId origin\<rparr>)"

text \<open>
  \<open>handleBufferedRequest(streamId, entry)\<close>; its \<open>finally\<close> block removes the stream.
\<close>

definition handleBufferedRequest ::
  "config \<Rightarrow> nat \<Rightarrow> StreamCtx \<Rightarrow> origin_result \<Rightarrow> client \<Rightarrow> client" where
  "handleBufferedRequest cfg streamId entry origin st =
     (let bodyBuf = concat (case chunks entry of None \<Rightarrow> [] | Some cs \<Rightarrow> cs);
          hs = AList.update ''content-length'' (decimal (length bodyBuf))
                 (origin_headers cfg (ctx_headers entry));
          method = toUpperCase (if truthy (ctx_method entry) then ctx_method entry else ''POST'');
          rq = \<lparr>url_host = opt_host cfg, url_port = opt_port cfg,
                url_path = (if truthy (ctx_path entry) then ctx_path entry else ''/''),
                o_method = method, o_headers = hs, o_body = Buffered bodyBuf\<rparr>
      in st\<lparr>requests := requests st @ [rq],
            wire := wire st @ response_frames (ctx_tunnelId entry) streamId origin,
            cstreams := AList.delete streamId (cstreams st)\<rparr>)"

text \<open>
  \<open>ws.on("message")\<close>. \<open>origin\<close> is the answer of the origin to the request that the
  message starts, if it starts one.
\<close>

definition client_message :: "config \<Rightarrow> frame \<Rightarrow> origin_result \<Rightarrow> client \<Rightarrow> client" where
  "client_message cfg msg origin st =
     (case msg of
        OpenStream tid streamId meth pth hdrs \<Rightarrow>
          let method = toUpperCase (if truthy meth then meth else ''GET'');
              path = (if truthy pth then pth else ''/'');
              shouldBuffer = (method \<notin> {''GET'', ''HEAD''} \<and> \<not> preferStream cfg)
          in if shouldBuffer
             then st\<lparr>cstreams := AList.update streamId
                      \<lparr>mode = BufferMode, body = None, chunks = Some [],
                       ctx_headers = hdrs, ctx_method = method, ctx_path = path,
                       ctx_tunnelId = tid\<rparr> (cstreams st)\<rparr>
             else handleOpenStream cfg tid streamId meth pth hdrs True origin
                    (st\<lparr>cstreams := AList.update streamId
                         \<lparr>mode = StreamMode, body = Some ([], False), chunks = None,
                          ctx_headers = hdrs, ctx_method = method, ctx_path = path,
                          ctx_tunnelId = tid\<rparr> (cstreams st)\<rparr>)
      | ReqData tid streamId chunk \<Rightarrow>
          (case (map_of (cstreams st) streamId, chunk) of
             (Some entry, Some buf) \<Rightarrow>
               (case mode entry of
                  BufferMode \<Rightarrow>
                    st\<lparr>cstreams := AList.update streamId
                         (entry\<lparr>chunks := Some ((case chunks entry of None \<Rightarrow> [] | Some cs \<Rightarrow> cs) @ [buf])\<rparr>)
                         (cstreams st)\<rparr>
                | StreamMode \<Rightarrow>
                    (case body entry of
                       None \<Rightarrow> st
                     | Some (written, ended) \<Rightarrow>
                         st\<lparr>cstreams := AList.update streamId
                              (entry\<lparr>body := Some (written @ [buf], ended)\<rparr>) (cstreams st)\<rparr>))
           | _ \<Rightarrow> st)
      | End tid streamId ph \<Rightarrow>
          if ph \<noteq> Some Req then st
          else (case map_of (cstreams st) streamId of
                  None \<Rightarrow> st
                | Some entry \<Rightarrow>
                    (case mode entry of
                       BufferMode \<Rightarrow> handleBufferedRequest cfg streamId entry origin st
                     | StreamMode \<Rightarrow>
                         (case body entry of
                            None \<Rightarrow> st
                          | Some (written, ended) \<Rightarrow>
                              st\<lparr>cstreams := AList.update streamId
                                   (entry\<lparr>body := Some (written, True)\<rparr>) (cstreams st)\<rparr>)))
      | _ \<Rightarrow> st)"

text \<open>The frames of a list that are a \<open>RESP_START\<close>, or a response-side \<open>END\<close>, of a stream.\<close>

fun is_resp_start :: "nat \<Rightarrow> frame \<Rightarrow> bool" where
  "is_resp_start streamId (RespStart tid i sc h) = (i = streamId)"
| "is_resp_start streamId _ = False"

fun is_end_res :: "nat \<Rightarrow> frame \<Rightarrow> bool" where
  "is_end_res streamId (End tid i ph) = (i = streamId \<and> ph = Some Res)"
| "is_end_res streamId _ = False"

section \<open>Predicates and scenarios\<close>

text \<open>
  The registry is sound when every subdomain in it is bound to a tunnel object whose
  control connection is open and has that subdomain as its \<open>assignedSubdomain\<close>.
\<close>

definition registry_ok :: "server \<Rightarrow> bool" where
  "registry_ok s =
     list_all (\<lambda>(sub, p).
        p < length (heap s) \<and>
        (case map_of (conns s) (ws (heap s ! p)) of
           None \<Rightarrow> False
         | Some cn \<Rightarrow> live cn \<and> assignedSubdomain cn = Some sub))
       (tunnels s)"

text \<open>No open connection has \<open>sub\<close> as its \<open>assignedSubdomain\<close>.\<close>

definition no_owner :: "string \<Rightarrow> server \<Rightarrow> bool" where
  "no_owner sub s =
     list_all (\<lambda>(c, cn). \<not> (live cn \<and> assignedSubdomain cn = Some sub)) (conns s)"

text \<open>
  A client connects and registers \<open>app\<close>; a \<open>GET /ping\<close> for \<open>app.localhost\<close> arrives,
  with a header that Node keeps as an array; the client answers with the origin's head.
\<close>

definition app_request :: http_request where
  "app_request =
     \<lparr>req_method = ''GET'', req_url = Some ''/ping'',
      req_headers = [(''host'', HStr ''app.localhost''), (''accept'', HStr ''*/*''),
                     (''set-cookie'', HArr [''a=1'', ''b=2''])],
      req_readable = False, req_chunks = []\<rparr>"

definition register_app :: "event list" where
  "register_app =
     [WsConnect 1 ''0.k3j5x9q2ab7'',
      WsMessage 1 (RegisterTunnel (Some ''app'')) ''0.4fzyo82mvyr'' 1000]"

definition one_stream :: "event list" where
  "one_stream = register_app @ [PublicRequest 7 app_request]"

definition origin_head :: headers where
  "origin_head =
     [(''Content-Type'', ''text/plain''), (''Connection'', ''keep-alive''),
      (''Transfer-Encoding'', ''chunked'')]"

definition head_arrives :: event where
  "head_arrives =
     WsMessage 1 (RespStart ''t_k3j5x9q2'' 1 (Some 200) (Some origin_head)) ''0.7h2ksl09xq'' 3000"

text \<open>The states of that run: after the connection, the registration, the request, the head.\<close>

definition app_conn :: conn where
  "app_conn = \<lparr>assignedSubdomain = Some ''app'', conn_tunnelId = ''t_k3j5x9q2'', live = True\<rparr>"

definition connected :: server where
  "connected =
     \<lparr>tunnels = [], heap = [],
      conns = [(1, \<lparr>assignedSubdomain = None, conn_tunnelId = ''t_k3j5x9q2'', live = True\<rparr>)],
      timers = [], next_timer = 0, sent = [], pub = []\<rparr>"

definition registered :: server where
  "registered =
     \<lparr>tunnels = [(''app'', 0)],
      heap = [\<lparr>ws = 1, tunnelId = ''t_k3j5x9q2'', subdomain = ''app'', createdAt = 1000,
               nextStreamId = 1, streams = []\<rparr>],
      conns = [(1, app_conn)],
      timers = [], next_timer = 0,
      sent = [(1, Registered ''app'' ''t_k3j5x9q2'')], pub = []\<rparr>"

definition streaming :: server where
  "streaming =
     \<lparr>tunnels = [(''app'', 0)],
      heap = [\<lparr>ws = 1, tunnelId = ''t_k3j5x9q2'', subdomain = ''app'', createdAt = 1000,
               nextStreamId = 2,
               streams = [(1, \<lparr>reply = 7, timeout = 0, headersSent = False\<rparr>)]\<rparr>],
      conns = [(1, app_conn)],
      timers = [(0, 0, 1, 7)], next_timer = 1,
      sent = [(1, Registered ''app'' ''t_k3j5x9q2''),
              (1, OpenStream ''t_k3j5x9q2'' 1 ''GET'' ''/ping''
                    [(''host'', ''app.localhost''), (''accept'', ''*/*'')]),
              (1, End ''t_k3j5x9q2'' 1 (Some Req))],
      pub = [(7, Hijack)]\<rparr>"

definition started :: server where
  "started =
     \<lparr>tunnels = [(''app'', 0)],
      heap = [\<lparr>ws = 1, tunnelId = ''t_k3j5x9q2'', subdomain = ''app'', createdAt = 1000,
               nextStreamId = 2,
               streams = [(1, \<lparr>reply = 7, timeout = 0, headersSent = True\<rparr>)]\<rparr>],
      conns = [(1, app_conn)],
      timers = [(0, 0, 1, 7)], next_timer = 1,
      sent = [(1, Registered ''app'' ''t_k3j5x9q2''),
              (1, OpenStream ''t_k3j5x9q2'' 1 ''GET'' ''/ping''
                    [(''host'', ''app.localhost''), (''accept'', ''*/*'')]),
              (1, End ''t_k3j5x9q2'' 1 (Some Req))],
      pub = [(7, Hijack), (7, WriteHead 200 [(''Content-Type'', ''text/plain'')])]\<rparr>"

text \<open>
  One connection registers \<open>aaa\<close>, then \<open>bbb\<close>, then closes; \<open>orphaned\<close> is the state
  that follows.
\<close>

definition register_twice :: "event list" where
  "register_twice =
     [WsConnect 1 ''0.k3j5x9q2ab7'',
      WsMessage 1 (RegisterTunnel (Some ''aaa'')) ''0.4fzyo82mvyr'' 1000,
      WsMessage 1 (RegisterTunnel (Some ''bbb'')) ''0.9c1xw0pq3df'' 2000,
      WsClose 1]"

definition orphaned :: server where
  "orphaned =
     \<lparr>tunnels = [(''aaa'', 0)],
      heap = [\<lparr>ws = 1, tunnelId = ''t_k3j5x9q2'', subdomain = ''aaa'', createdAt = 1000,
               nextStreamId = 1, streams = []\<rparr>,
              \<lparr>ws = 1, tunnelId = ''t_k3j5x9q2'', subdomain = ''bbb'', createdAt = 2000,
               nextStreamId = 1, streams = []\<rparr>],
      conns = [(1, \<lparr>assignedSubdomain = Some ''bbb'', conn_tunnelId = ''t_k3j5x9q2'',
                    live = False\<rparr>)],
      timers = [], next_timer = 0,
      sent = [(1, Registered ''aaa'' ''t_k3j5x9q2''), (1, Registered ''bbb'' ''t_k3j5x9q2'')],
      pub = []\<rparr>"

text \<open>
  A client registers without a subdomain at a moment when \<open>Math.random()\<close> is 0.5, whose
  \<open>toString(36)\<close> is \<open>"0.i"\<close>.
\<close>

definition register_random :: "event list" where
  "register_random =
     [WsConnect 1 ''0.k3j5x9q2ab7'', WsMessage 1 (RegisterTunnel None) ''0.i'' 1000]"

text \<open>The client before any message, a configuration, and the \<open>OPEN_STREAM\<close> of the request.\<close>

definition client_init :: client where
  "client_init = \<lparr>cstreams = [], wire = [], requests = []\<rparr>"

definition cfg0 :: config where
  "cfg0 = \<lparr>opt_host = ''127.0.0.1'', opt_port = 8080, preferStream = False,
            forceIdentity = False\<rparr>"

definition ping_open :: frame where
  "ping_open =
     OpenStream ''t_k3j5x9q2'' 1 ''GET'' ''/ping''
       [(''host'', ''app.localhost''), (''accept'', ''*/*'')]"

definition echo_open :: frame where
  "echo_open =
     OpenStream ''t_k3j5x9q2'' 2 ''POST'' ''/echo''
       [(''host'', ''app.localhost''), (''content-type'', ''application/json'')]"

text \<open>
  A run of the client: each message comes with the answer of the origin to the request
  it starts, which plays no part when the message starts none.
\<close>

definition client_run :: "config \<Rightarrow> client \<Rightarrow> (frame \<times> origin_result) list \<Rightarrow> client" where
  "client_run cfg st ms = foldl (\<lambda>st (msg, origin). client_message cfg msg origin st) st ms"

text \<open>
  The headers of the origin's answer, as undici gives them: \<open>content-type\<close> with a
  string and \<open>set-cookie\<close> with an array.
\<close>

definition set_cookie_head :: raw_headers where
  "set_cookie_head =
     PlainObject [(''content-type'', HStr ''text/plain''),
                  (''set-cookie'', HArr [''a=1'', ''b=2''])]"

section \<open>Properties of the server\<close>

subsection \<open>Sending a frame, recording a call\<close>

lemma send_simps [simp]:
  "sent (send w f s) = sent s @ [(w, f)]"
  "pub (send w f s) = pub s"
  "heap (send w f s) = heap s"
  "tunnels (send w f s) = tunnels s"
  "conns (send w f s) = conns s"
  "timers (send w f s) = timers s"
  "next_timer (send w f s) = next_timer s"
  by (simp_all add: send_def)

lemma call_simps [simp]:
  "pub (call r c s) = pub s @ [(r, c)]"
  "sent (call r c s) = sent s"
  "heap (call r c s) = heap s"
  "tunnels (call r c s) = tunnels s"
  "conns (call r c s) = conns s"
  "timers (call r c s) = timers s"
  "next_timer (call r c s) = next_timer s"
  by (simp_all add: call_def)

lemma foldl_send_simps [simp]:
  "pub (foldl (\<lambda>st x. send w (f x) st) s xs) = pub s"
  "heap (foldl (\<lambda>st x. send w (f x) st) s xs) = heap s"
  "tunnels (foldl (\<lambda>st x. send w (f x) st) s xs) = tunnels s"
  "conns (foldl (\<lambda>st x. send w (f x) st) s xs) = conns s"
  "timers (foldl (\<lambda>st x. send w (f x) st) s xs) = timers s"
  "sent (foldl (\<lambda>st x. send w (f x) st) s xs) = sent s @ map (\<lambda>x. (w, f x)) xs"
  by (induction xs arbitrary: s) simp_all

lemma run_snoc: "run env s (evs @ [ev]) = step env (run env s evs) ev"
  by (simp add: run_def)

lemma run_append: "run env s (xs @ ys) = run env (run env s xs) ys"
  by (simp add: run_def)

lemma in_update: "e \<in> set (AList.update k v al) \<Longrightarrow> e = (k, v) \<or> e \<in> set al"
  by (induction al) (auto split: if_splits)

lemma update_fresh: "k \<notin> fst ` set al \<Longrightarrow> AList.update k v al = al @ [(k, v)]"
  by (induction al) auto

lemma map_of_delete_other: "k \<noteq> k' \<Longrightarrow> map_of (AList.delete k al) k' = map_of al k'"
  by (simp add: AList.delete_conv)

lemma nth_update_same:
  "f (g (xs ! i)) = f (xs ! i) \<Longrightarrow> f ((xs[i := g (xs ! i)]) ! j) = f (xs ! j)"
  by (cases "i = j"; cases "i < length xs") (simp_all add: list_update_beyond)

subsection \<open>Routing by host\<close>

lemma DOMAIN_BASE_nonempty: "DOMAIN_BASE env \<noteq> []"
  by (auto simp: DOMAIN_BASE_def truthy_def split: option.splits)

lemma endsWith_iff: "endsWith s t \<longleftrightarrow> (\<exists>p. s = p @ t)"
  unfolding endsWith_def
  by (metis append_eq_conv_conj append_take_drop_id diff_add_inverse2 length_append le_add2
      length_drop)

lemma slice_0_neg: "0 < n \<Longrightarrow> slice s 0 (- int n) = take (length s - n) s"
  by (auto simp: slice_def Let_def max_def nat_diff_distrib')

text \<open>
  With a base that is not empty, \<open>extractSubdomain\<close> finds a subdomain exactly when the
  host is a valid label, a dot, and the base.
\<close>

lemma extractSubdomain_Some_iff:
  assumes "base \<noteq> []"
  shows "extractSubdomain host base = Some sub \<longleftrightarrow>
         host = sub @ ''.'' @ base \<and> isValidSubdomain sub"
proof
  assume h: "extractSubdomain host base = Some sub"
  then obtain p where p: "host = p @ base"
    by (auto simp: extractSubdomain_def endsWith_iff split: if_splits)
  have suf: "slice host 0 (- int (length base)) = p"
    using assms p by (simp add: slice_0_neg)
  from h suf obtain q where q: "p = q @ ''.''"
    by (auto simp: extractSubdomain_def Let_def endsWith_iff split: if_splits)
  have "slice p 0 (- 1) = q"
    using slice_0_neg [of 1 p] q by simp
  with h suf p q show "host = sub @ ''.'' @ base \<and> isValidSubdomain sub"
    by (auto simp: extractSubdomain_def Let_def split: if_splits)
next
  assume h: "host = sub @ ''.'' @ base \<and> isValidSubdomain sub"
  have e1: "endsWith host base"
    using h by (metis append_assoc endsWith_iff)
  have suf: "slice host 0 (- int (length base)) = sub @ ''.''"
    using assms h by (simp add: slice_0_neg)
  have e2: "endsWith (sub @ ''.'') ''.''"
    by (simp add: endsWith_iff)
  have "slice (sub @ ''.'') 0 (- 1) = sub"
    using slice_0_neg [of 1 "sub @ ''.''"] by simp
  with e1 suf e2 h show "extractSubdomain host base = Some sub"
    by (simp add: extractSubdomain_def Let_def)
qed

lemma isValidSubdomain_truthy: "isValidSubdomain s \<Longrightarrow> truthy s"
  by (auto simp: isValidSubdomain_def truthy_def)

lemma takeWhile_absent: "c \<notin> set xs \<Longrightarrow> takeWhile (\<lambda>x. x \<noteq> c) xs = xs"
  by (induction xs) auto

lemma request_host_eq:
  "request_host req
   = takeWhile (\<lambda>c. c \<noteq> CHR '':'') (toLowerCase (host_header (req_headers req)))"
  by (simp add: request_host_def Let_def includes_colon_def split_colon_0_def takeWhile_absent)

lemma label_of_host:
  "endsWith host (''.'' @ base) \<Longrightarrow>
   host = take (length host - Suc (length base)) host @ ''.'' @ base"
  by (auto simp: endsWith_iff)

text \<open>
  Claim C7. The host of a public request is the \<open>Host\<close> header in lower case, up to its
  first colon. The handler answers 404 when that host is the base domain, or does not end
  with a dot and the base domain, or when what stands before the dot and the base domain
  does not match \<open>^[a-z0-9-]{3,63}$\<close>; it answers 502 with the body
  \<open>{"error":"Tunnel not connected"}\<close> when that label is valid and the registry has no
  entry for it. In both cases the handler does nothing else.
\<close>

theorem public_request_routing:
  "request_host req
     = takeWhile (\<lambda>c. c \<noteq> CHR '':'') (toLowerCase (host_header (req_headers req)))
   \<and> (request_host req = DOMAIN_BASE env
        \<or> \<not> endsWith (request_host req) (''.'' @ DOMAIN_BASE env)
        \<or> \<not> isValidSubdomain
              (take (length (request_host req) - Suc (length (DOMAIN_BASE env)))
                 (request_host req))
      \<longrightarrow> public_request env rid req s = call rid (ReplySend 404 (ErrorObj ''Not Found'')) s)
   \<and> (endsWith (request_host req) (''.'' @ DOMAIN_BASE env)
        \<and> isValidSubdomain
              (take (length (request_host req) - Suc (length (DOMAIN_BASE env)))
                 (request_host req))
        \<and> \<not> has (tunnels s)
              (take (length (request_host req) - Suc (length (DOMAIN_BASE env)))
                 (request_host req))
      \<longrightarrow> public_request env rid req s
            = call rid (ReplySend 502 (ErrorObj ''Tunnel not connected'')) s)"
proof (intro conjI impI)
  let ?h = "request_host req" and ?b = "DOMAIN_BASE env"
  let ?l = "take (length ?h - Suc (length ?b)) ?h"
  have b: "?b \<noteq> []" by (rule DOMAIN_BASE_nonempty)
  show "?h = takeWhile (\<lambda>c. c \<noteq> CHR '':'') (toLowerCase (host_header (req_headers req)))"
    by (rule request_host_eq)
  {
    assume a: "?h = ?b \<or> \<not> endsWith ?h (''.'' @ ?b) \<or> \<not> isValidSubdomain ?l"
    have "request_sub env req = None"
    proof (cases "request_sub env req")
      case None
      then show ?thesis .
    next
      case (Some sub)
      then have e: "?h = sub @ ''.'' @ ?b" and v: "isValidSubdomain sub"
        using extractSubdomain_Some_iff [OF b] by (simp_all add: request_sub_def)
      from e have "length ?h = length sub + Suc (length ?b)" by (metis length_append length_Cons list.size(3) add_Suc_right add_0_right append_Cons append_Nil)
      then have "?h \<noteq> ?b" by auto
      moreover from e have "endsWith ?h (''.'' @ ?b)" by (metis endsWith_iff)
      moreover from e have "?l = sub"
        by (metis append_eq_conv_conj length_append length_Cons list.size(3) add_Suc_right
            add_0_right diff_add_inverse2 append_Cons append_Nil)
      ultimately show ?thesis using a v by simp
    qed
    then show "public_request env rid req s = call rid (ReplySend 404 (ErrorObj ''Not Found'')) s"
      by (simp add: public_request_def)
  }
  {
    assume a: "endsWith ?h (''.'' @ ?b) \<and> isValidSubdomain ?l \<and> \<not> has (tunnels s) ?l"
    then have "?h = ?l @ ''.'' @ ?b" using label_of_host by blast
    with a have "request_sub env req = Some ?l"
      using extractSubdomain_Some_iff [OF b] by (simp add: request_sub_def)
    with a show "public_request env rid req s
            = call rid (ReplySend 502 (ErrorObj ''Tunnel not connected'')) s"
      by (simp add: public_request_def isValidSubdomain_truthy tunnels_get_def has_def)
  }
qed

text \<open>
  Claim C7, at two requests on the server's first state, with \<open>DOMAIN_BASE\<close> unset: the
  host \<open>LOCALHOST:3000\<close> is the base domain and gets 404, the host
  \<open>None.Localhost:3000\<close> names the unregistered subdomain \<open>none\<close> and gets 502.
\<close>

theorem public_request_routing_witness:
  "public_request None 0
     \<lparr>req_method = ''GET'', req_url = Some ''/x'',
      req_headers = [(''host'', HStr ''LOCALHOST:3000'')],
      req_readable = False, req_chunks = []\<rparr> init
   = call 0 (ReplySend 404 (ErrorObj ''Not Found'')) init
   \<and> public_request None 0
     \<lparr>req_method = ''GET'', req_url = Some ''/'',
      req_headers = [(''host'', HStr ''None.Localhost:3000'')],
      req_readable = False, req_chunks = []\<rparr> init
   = call 0 (ReplySend 502 (ErrorObj ''Tunnel not connected'')) init"
proof -
  let ?r1 = "\<lparr>req_method = ''GET'', req_url = Some ''/x'',
      req_headers = [(''host'', HStr ''LOCALHOST:3000'')],
      req_readable = False, req_chunks = []\<rparr>"
  let ?r2 = "\<lparr>req_method = ''GET'', req_url = Some ''/'',
      req_headers = [(''host'', HStr ''None.Localhost:3000'')],
      req_readable = False, req_chunks = []\<rparr>"
  have a: "request_host ?r1 = DOMAIN_BASE None"
    by code_simp
  have b: "endsWith (request_host ?r2) (''.'' @ DOMAIN_BASE None)
        \<and> isValidSubdomain
              (take (length (request_host ?r2) - Suc (length (DOMAIN_BASE None)))
                 (request_host ?r2))
        \<and> \<not> has (tunnels init)
              (take (length (request_host ?r2) - Suc (length (DOMAIN_BASE None)))
                 (request_host ?r2))"
    by code_simp
  show ?thesis
    using public_request_routing [of ?r1 None 0 init] public_request_routing [of ?r2 None 0 init]
      a b
    by blast
qed

subsection \<open>The scenario, step by step\<close>

lemma connect_init: "ws_connect 1 ''0.k3j5x9q2ab7'' init = connected"
  unfolding connected_def by code_simp

lemma register_connected:
  "ws_message 1 (RegisterTunnel (Some ''app'')) ''0.4fzyo82mvyr'' 1000 connected = registered"
  unfolding connected_def registered_def app_conn_def by code_simp

lemma run_register_app: "run None init register_app = registered"
  by (simp only: run_def register_app_def foldl.simps step.simps connect_init register_connected)

lemma request_sub_app: "request_sub None app_request = Some ''app''"
  by code_simp

lemma request_registered: "public_request None 7 app_request registered = streaming"
proof -
  have f: "req_method app_request = ''GET''" "req_url app_request = Some ''/ping''"
    "req_headers app_request
       = [(''host'', HStr ''app.localhost''), (''accept'', HStr ''*/*''),
          (''set-cookie'', HArr [''a=1'', ''b=2''])]"
    "req_readable app_request = False" "req_chunks app_request = []"
    by (simp_all add: app_request_def)
  show ?thesis
    by (simp add: public_request_def request_sub_app f truthy_def tunnels_get_def Let_def
        js_inc_def send_def call_def registered_def streaming_def)
qed

lemma run_one_stream: "run None init one_stream = streaming"
  by (simp add: one_stream_def run_append run_register_app)
     (simp add: run_def request_registered)

lemma head_arrives_streaming: "step None streaming head_arrives = started"
  unfolding head_arrives_def streaming_def started_def origin_head_def app_conn_def
  by code_simp

lemma run_head_arrives: "run None init (one_stream @ [head_arrives]) = started"
  by (simp add: run_snoc run_one_stream head_arrives_streaming)

lemma close_streaming:
  "step None streaming (WsClose 1)
   = streaming\<lparr>tunnels := [], conns := [(1, app_conn\<lparr>live := False\<rparr>)]\<rparr>"
  unfolding streaming_def app_conn_def by code_simp

lemma close_started:
  "step None started (WsClose 1)
   = started\<lparr>tunnels := [], conns := [(1, app_conn\<lparr>live := False\<rparr>)]\<rparr>"
  unfolding started_def app_conn_def by code_simp

lemma run_register_twice: "run env init register_twice = orphaned"
  unfolding run_def register_twice_def orphaned_def by code_simp

subsection \<open>The headers written to a public response\<close>

lemma normalizeHeaders_loop_keys:
  "fst ` set (normalizeHeaders_loop out h)
   \<subseteq> fst ` set out \<union> {k \<in> fst ` set h. toLowerCase k \<notin> set hop_by_hop}"
proof (induction out h rule: normalizeHeaders_loop.induct)
  case (1 out)
  then show ?case by simp
next
  case (2 out k v rest)
  then show ?case
    by (auto simp: Let_def AList.dom_update split: if_splits)
qed

lemma normalizeHeaders_loop_distinct:
  "distinct (map fst h) \<Longrightarrow> fst ` set out \<inter> fst ` set h = {} \<Longrightarrow>
   normalizeHeaders_loop out h
   = out @ filter (\<lambda>(k, v). toLowerCase k \<notin> set hop_by_hop) h"
proof (induction out h rule: normalizeHeaders_loop.induct)
  case (1 out)
  then show ?case by simp
next
  case (2 out k v rest)
  show ?case
  proof (cases "toLowerCase k \<in> set hop_by_hop")
    case True
    with 2 show ?thesis by (auto simp: Let_def)
  next
    case False
    from "2.prems" have fresh: "k \<notin> fst ` set out" by auto
    have u: "AList.update k v out = out @ [(k, v)]" using fresh by (rule update_fresh)
    from "2.prems" have "distinct (map fst rest)"
      "fst ` set (out @ [(k, v)]) \<inter> fst ` set rest = {}"
      by auto
    with "2.IH"(2) [OF refl False] u False show ?thesis by (simp add: Let_def)
  qed
qed

lemma normalizeHeaders_no_hop:
  "(k, v) \<in> set (normalizeHeaders h) \<Longrightarrow> toLowerCase k \<notin> set hop_by_hop"
  using normalizeHeaders_loop_keys [of "[]" h] by (force simp: normalizeHeaders_def)

lemma normalizeHeaders_distinct:
  "distinct (map fst h) \<Longrightarrow>
   normalizeHeaders h = filter (\<lambda>(k, v). toLowerCase k \<notin> set hop_by_hop) h"
  using normalizeHeaders_loop_distinct [of h "[]"] by (simp add: normalizeHeaders_def)

text \<open>The calls that each handler adds to the record of public calls.\<close>

lemma pub_keep [simp]:
  "pub (register_tunnel c cn x r now s) = pub s"
  "pub (ws_connect c r s) = pub s"
  "pub (ws_close c s) = pub s"
  by (simp_all add: register_tunnel_def ws_connect_def ws_close_def Let_def split: option.splits)

lemma pub_resp_start:
  "pub (resp_start cn sid sc hs s) = pub s
   \<or> (\<exists>r. pub (resp_start cn sid sc hs s)
          = pub s @ [(r, WriteHead (status_or_200 sc)
                          (normalizeHeaders (case hs of None \<Rightarrow> [] | Some h \<Rightarrow> h)))])"
  by (auto simp: resp_start_def split: option.splits)

lemma pub_resp_data:
  "pub (resp_data cn sid chunk s) = pub s
   \<or> (\<exists>r b. pub (resp_data cn sid chunk s) = pub s @ [(r, Write b)])"
  by (auto simp: resp_data_def split: option.splits)

lemma pub_end_stream:
  "pub (end_stream cn sid ph s) = pub s
   \<or> (\<exists>r. pub (end_stream cn sid ph s) = pub s @ [(r, EndResponse)])"
  by (auto simp: end_stream_def split: option.splits)

lemma pub_timer_fires:
  "pub (timer_fires t s) = pub s
   \<or> (\<exists>r. pub (timer_fires t s) = pub s @ [(r, ReplySend 504 (ErrorObj ''Upstream timeout''))])"
  by (auto simp: timer_fires_def split: option.splits)

lemma pub_public_request:
  "\<exists>c. pub (public_request env rid req s) = pub s @ [(rid, c)] \<and> (\<forall>sc h. c \<noteq> WriteHead sc h)"
  by (auto simp: public_request_def Let_def split: option.splits)

lemma pub_step_heads:
  assumes "(r, WriteHead sc h) \<in> set (pub (step env s ev))"
  shows "(r, WriteHead sc h) \<in> set (pub s) \<or> (\<exists>h'. h = normalizeHeaders h')"
proof (cases ev)
  case (WsConnect c x)
  with assms show ?thesis by simp
next
  case (WsMessage c msg x now)
  show ?thesis
  proof (cases "map_of (conns s) c")
    case None
    with assms WsMessage show ?thesis by (simp add: ws_message_def)
  next
    case (Some cn)
    show ?thesis
    proof (cases "live cn")
      case False
      with assms WsMessage Some show ?thesis by (simp add: ws_message_def)
    next
      case True
      show ?thesis
      proof (cases msg)
        case (RespStart tid sid st hs)
        with assms WsMessage Some True pub_resp_start [of cn sid st hs s] show ?thesis
          by (auto simp: ws_message_def)
      next
        case (RespData tid sid chunk)
        with assms WsMessage Some True pub_resp_data [of cn sid chunk s] show ?thesis
          by (auto simp: ws_message_def)
      next
        case (End tid sid ph)
        with assms WsMessage Some True pub_end_stream [of cn sid ph s] show ?thesis
          by (auto simp: ws_message_def)
      qed (use assms WsMessage Some True in \<open>simp_all add: ws_message_def\<close>)
    qed
  qed
next
  case (WsClose c)
  with assms show ?thesis by simp
next
  case (PublicRequest rid req)
  with assms pub_public_request [of env rid req s] show ?thesis by auto
next
  case (TimerFires t)
  with assms pub_timer_fires [of t s] show ?thesis by auto
qed

lemma pub_run_heads:
  "(r, WriteHead sc h) \<in> set (pub (run env init evs)) \<Longrightarrow> \<exists>h'. h = normalizeHeaders h'"
proof (induction evs arbitrary: r sc h rule: rev_induct)
  case Nil
  then show ?case by (simp add: run_def init_def)
next
  case (snoc ev evs)
  then show ?case using pub_step_heads [of r sc h env "run env init evs" ev]
    by (auto simp: run_snoc)
qed

text \<open>
  Claim C6. In every run of the server, no header set passed to \<open>writeHead\<close> on a public
  response has a key that is \<open>transfer-encoding\<close>, \<open>connection\<close> or \<open>keep-alive\<close> in
  lower case. When a \<open>RESP_START\<close> with the header map \<open>h\<close> reaches a stream whose
  head is not yet sent, the header set written is \<open>h\<close> without the entries of those
  three names: every other entry is there with its own key and value.
\<close>

theorem written_headers:
  "(\<forall>r sc hs k v. (r, WriteHead sc hs) \<in> set (pub (run env init evs)) \<and> (k, v) \<in> set hs
       \<longrightarrow> toLowerCase k \<notin> {''transfer-encoding'', ''connection'', ''keep-alive''})
   \<and> (conn_info cn s = Some (p, info) \<and> map_of (streams info) sid = Some e
        \<and> \<not> headersSent e \<and> distinct (map fst h)
      \<longrightarrow> pub (resp_start cn sid sc (Some h) s)
          = pub s @ [(reply e, WriteHead (status_or_200 sc)
               (filter (\<lambda>(k, v). toLowerCase k
                          \<notin> {''transfer-encoding'', ''connection'', ''keep-alive''}) h))])"
proof (intro conjI allI impI)
  fix r sc hs k v
  assume "(r, WriteHead sc hs) \<in> set (pub (run env init evs)) \<and> (k, v) \<in> set hs"
  then show "toLowerCase k \<notin> {''transfer-encoding'', ''connection'', ''keep-alive''}"
    using pub_run_heads [of r sc hs env evs] normalizeHeaders_no_hop [of k v]
    by (auto simp: hop_by_hop_def)
next
  assume a: "conn_info cn s = Some (p, info) \<and> map_of (streams info) sid = Some e
        \<and> \<not> headersSent e \<and> distinct (map fst h)"
  then have "normalizeHeaders h
     = filter (\<lambda>(k, v). toLowerCase k
                 \<notin> {''transfer-encoding'', ''connection'', ''keep-alive''}) h"
    using normalizeHeaders_distinct [of h] by (simp add: hop_by_hop_def)
  with a show "pub (resp_start cn sid sc (Some h) s)
          = pub s @ [(reply e, WriteHead (status_or_200 sc)
               (filter (\<lambda>(k, v). toLowerCase k
                          \<notin> {''transfer-encoding'', ''connection'', ''keep-alive''}) h))]"
    by (simp add: resp_start_def)
qed

text \<open>
  Claim C6, in the scenario: the origin's head has \<open>Content-Type\<close>, \<open>Connection\<close> and
  \<open>Transfer-Encoding\<close>, and the head written to the public response has \<open>Content-Type\<close>
  alone, in its own spelling.
\<close>

theorem written_headers_witness:
  "(7, WriteHead 200 [(''Content-Type'', ''text/plain'')])
     \<in> set (pub (run None init (one_stream @ [head_arrives])))
   \<and> toLowerCase ''Content-Type'' \<notin> {''transfer-encoding'', ''connection'', ''keep-alive''}
   \<and> pub (resp_start app_conn 1 (Some 200) (Some origin_head) streaming)
     = [(7, Hijack), (7, WriteHead 200 [(''Content-Type'', ''text/plain'')])]"
proof -
  let ?info = "\<lparr>ws = 1, tunnelId = ''t_k3j5x9q2'', subdomain = ''app'', createdAt = 1000,
               nextStreamId = 2,
               streams = [(1, \<lparr>reply = 7, timeout = 0, headersSent = False\<rparr>)]\<rparr>"
  let ?e = "\<lparr>reply = 7, timeout = 0, headersSent = False\<rparr>"
  have m: "(7, WriteHead 200 [(''Content-Type'', ''text/plain'')])
             \<in> set (pub (run None init (one_stream @ [head_arrives])))
           \<and> (''Content-Type'', ''text/plain'') \<in> set [(''Content-Type'', ''text/plain'')]"
    by (simp add: run_head_arrives started_def)
  have h: "conn_info app_conn streaming = Some (0, ?info) \<and> map_of (streams ?info) 1 = Some ?e
        \<and> \<not> headersSent ?e \<and> distinct (map fst origin_head)"
    by (simp add: conn_info_def app_conn_def streaming_def truthy_def origin_head_def)
  have f: "filter (\<lambda>(k, v). toLowerCase k
                     \<notin> {''transfer-encoding'', ''connection'', ''keep-alive''}) origin_head
           = [(''Content-Type'', ''text/plain'')]"
    by code_simp
  have s: "status_or_200 (Some 200) = 200" by (simp add: status_or_200_def)
  from written_headers
         [of None "one_stream @ [head_arrives]" app_conn streaming 0 ?info 1 ?e origin_head
            "Some 200"] m h
  have "toLowerCase ''Content-Type'' \<notin> {''transfer-encoding'', ''connection'', ''keep-alive''}"
    and "pub (resp_start app_conn 1 (Some 200) (Some origin_head) streaming)
          = pub streaming @ [(reply ?e, WriteHead (status_or_200 (Some 200))
               (filter (\<lambda>(k, v). toLowerCase k
                          \<notin> {''transfer-encoding'', ''connection'', ''keep-alive''}) origin_head))]"
    by blast+
  with m f s show ?thesis by (simp add: streaming_def)
qed

subsection \<open>The registry\<close>

lemma no_owner_update:
  "no_owner sub s \<Longrightarrow> \<not> (live cn \<and> assignedSubdomain cn = Some sub) \<Longrightarrow>
   list_all (\<lambda>(c, cn). \<not> (live cn \<and> assignedSubdomain cn = Some sub))
     (AList.update c cn (conns s))"
  unfolding no_owner_def list_all_iff by (auto dest: in_update)

lemma no_owner_lookup:
  "no_owner sub s \<Longrightarrow> map_of (conns s) c = Some cn \<Longrightarrow>
   \<not> (live cn \<and> assignedSubdomain cn = Some sub)"
  unfolding no_owner_def list_all_iff by (auto dest: map_of_SomeD)

lemma frames_keep_registry:
  "tunnels (resp_start cn sid sc hs s) = tunnels s \<and> conns (resp_start cn sid sc hs s) = conns s"
  "tunnels (resp_data cn sid chunk s) = tunnels s \<and> conns (resp_data cn sid chunk s) = conns s"
  "tunnels (end_stream cn sid ph s) = tunnels s \<and> conns (end_stream cn sid ph s) = conns s"
  "tunnels (timer_fires t s) = tunnels s \<and> conns (timer_fires t s) = conns s"
  "tunnels (public_request env rid req s) = tunnels s
   \<and> conns (public_request env rid req s) = conns s"
  by (auto simp: resp_start_def resp_data_def end_stream_def timer_fires_def public_request_def
      Let_def split: option.splits)

text \<open>
  An entry that no open connection owns stays: a registration binds a subdomain only
  when the registry does not have it, and a close deletes only the subdomain assigned to
  the connection that closes.
\<close>

lemma orphan_register:
  assumes "map_of (tunnels s) sub = Some p" and "no_owner sub s"
  shows "map_of (tunnels (register_tunnel c cn x r now s)) sub = Some p
         \<and> no_owner sub (register_tunnel c cn x r now s)"
proof -
  define sub' where "sub' =
     (case (case x of None \<Rightarrow> None
             | Some y \<Rightarrow> if truthy y \<and> isValidSubdomain y then Some y else None) of
        None \<Rightarrow> generateRandomSubdomain r
      | Some y \<Rightarrow> if \<not> has (tunnels s) y then y else generateRandomSubdomain r)"
  show ?thesis
  proof (cases "has (tunnels s) sub'")
    case True
    with assms show ?thesis
      by (simp add: register_tunnel_def Let_def sub'_def [symmetric] no_owner_def)
  next
    case False
    with assms(1) have ne: "sub' \<noteq> sub" by (auto simp: has_def)
    have "no_owner sub (register_tunnel c cn x r now s)"
      using False no_owner_update [OF assms(2), of "cn\<lparr>assignedSubdomain := Some sub'\<rparr>" c] ne
      by (simp add: register_tunnel_def Let_def sub'_def [symmetric] no_owner_def)
    moreover have "map_of (tunnels (register_tunnel c cn x r now s)) sub = Some p"
      using False assms(1) ne
      by (simp add: register_tunnel_def Let_def sub'_def [symmetric] AList.update_conv')
    ultimately show ?thesis by simp
  qed
qed

lemma orphan_close:
  assumes "map_of (tunnels s) sub = Some p" and "no_owner sub s"
  shows "map_of (tunnels (ws_close c s)) sub = Some p \<and> no_owner sub (ws_close c s)"
proof (cases "map_of (conns s) c")
  case None
  with assms show ?thesis by (simp add: ws_close_def)
next
  case (Some cn)
  show ?thesis
  proof (cases "live cn")
    case False
    with Some assms show ?thesis by (simp add: ws_close_def)
  next
    case True
    have n: "list_all (\<lambda>(c, cn). \<not> (live cn \<and> assignedSubdomain cn = Some sub))
              (AList.update c (cn\<lparr>live := False\<rparr>) (conns s))"
      using no_owner_update [OF assms(2), of "cn\<lparr>live := False\<rparr>" c] by simp
    from no_owner_lookup [OF assms(2) Some] True
    have "assignedSubdomain cn \<noteq> Some sub" by simp
    with Some True n assms(1) show ?thesis
      by (auto simp: ws_close_def Let_def no_owner_def map_of_delete_other split: option.splits)
  qed
qed

lemma orphan_step:
  assumes "map_of (tunnels s) sub = Some p" and "no_owner sub s"
  shows "map_of (tunnels (step env s ev)) sub = Some p \<and> no_owner sub (step env s ev)"
proof (cases ev)
  case (WsConnect c r)
  show ?thesis
  proof (cases "has (conns s) c")
    case True
    with WsConnect assms show ?thesis by (simp add: ws_connect_def)
  next
    case False
    with WsConnect assms
      no_owner_update [OF assms(2), of "\<lparr>assignedSubdomain = None,
         conn_tunnelId = ''t_'' @ slice r 2 10, live = True\<rparr>" c]
    show ?thesis by (simp add: ws_connect_def no_owner_def)
  qed
next
  case (WsMessage c msg r now)
  show ?thesis
  proof (cases "map_of (conns s) c")
    case None
    with WsMessage assms show ?thesis by (simp add: ws_message_def)
  next
    case (Some cn)
    show ?thesis
    proof (cases "live cn")
      case False
      with WsMessage Some assms show ?thesis by (simp add: ws_message_def)
    next
      case True
      show ?thesis
      proof (cases msg)
        case (RegisterTunnel x)
        with WsMessage Some True orphan_register [OF assms] show ?thesis
          by (simp add: ws_message_def)
      qed (use WsMessage Some True assms in
            \<open>simp_all add: ws_message_def frames_keep_registry no_owner_def\<close>)
    qed
  qed
next
  case (WsClose c)
  with orphan_close [OF assms] show ?thesis by simp
next
  case (PublicRequest rid req)
  with assms show ?thesis by (simp add: frames_keep_registry no_owner_def)
next
  case (TimerFires t)
  with assms show ?thesis by (simp add: frames_keep_registry no_owner_def)
qed

lemma orphan_run:
  "map_of (tunnels s) sub = Some p \<Longrightarrow> no_owner sub s \<Longrightarrow>
   map_of (tunnels (run env s evs)) sub = Some p \<and> no_owner sub (run env s evs)"
proof (induction evs arbitrary: s)
  case Nil
  then show ?case by (simp add: run_def)
next
  case (Cons ev evs)
  from orphan_step [OF Cons.prems, of env ev] Cons.IH [of "step env s ev"]
  show ?case by (simp add: run_def)
qed

text \<open>
  Claim C1, which the code breaks. One connection registers \<open>aaa\<close>, then \<open>bbb\<close>, then
  closes. The second registration overwrites \<open>assignedSubdomain\<close>, so the close deletes
  \<open>bbb\<close> alone: the registry is left with \<open>aaa\<close>, bound to a tunnel whose socket is that
  closed connection, and no later event of any kind removes the entry.
\<close>

theorem orphan_after_second_register:
  "\<not> registry_ok (run env init register_twice)
   \<and> map_of (tunnels (run env init register_twice)) ''aaa'' = Some 0
   \<and> ws (heap (run env init register_twice) ! 0) = 1
   \<and> map_of (conns (run env init register_twice)) 1
       = Some \<lparr>assignedSubdomain = Some ''bbb'', conn_tunnelId = ''t_k3j5x9q2'', live = False\<rparr>
   \<and> (\<forall>evs. map_of (tunnels (run env (run env init register_twice) evs)) ''aaa'' = Some 0)"
proof -
  have a: "map_of (tunnels orphaned) ''aaa'' = Some 0" by (simp add: orphaned_def)
  have b: "no_owner ''aaa'' orphaned" by (simp add: orphaned_def no_owner_def)
  have c: "\<not> registry_ok orphaned" by (simp add: orphaned_def registry_ok_def)
  have d: "ws (heap orphaned ! 0) = 1" by (simp add: orphaned_def)
  have e: "map_of (conns orphaned) 1
       = Some \<lparr>assignedSubdomain = Some ''bbb'', conn_tunnelId = ''t_k3j5x9q2'', live = False\<rparr>"
    by (simp add: orphaned_def)
  from a b c d e orphan_run [OF a b, of env] show ?thesis
    by (simp add: run_register_twice)
qed

text \<open>
  A requested subdomain that is valid and free is the one bound, and a random label
  drawn from a string with at least seven base-36 digits after \<open>0.\<close> is those first
  seven digits and is valid.
\<close>

lemma register_requested:
  "isValidSubdomain x \<Longrightarrow> \<not> has (tunnels s) x \<Longrightarrow>
   tunnels (register_tunnel c cn (Some x) r now s) = AList.update x (length (heap s)) (tunnels s)"
  by (simp add: register_tunnel_def Let_def isValidSubdomain_truthy)

lemma generateRandomSubdomain_long:
  "7 \<le> length ds \<Longrightarrow> generateRandomSubdomain (''0.'' @ ds) = take 7 ds"
  by (simp add: generateRandomSubdomain_def slice_def Let_def min_def)

lemma generateRandomSubdomain_valid:
  assumes "7 \<le> length ds" and "list_all subdomain_char ds"
  shows "length (generateRandomSubdomain (''0.'' @ ds)) = 7
         \<and> isValidSubdomain (generateRandomSubdomain (''0.'' @ ds))"
proof -
  have g: "generateRandomSubdomain (''0.'' @ ds) = take 7 ds"
    using assms(1) by (rule generateRandomSubdomain_long)
  show ?thesis
    unfolding g using assms
    by (auto simp: isValidSubdomain_def list_all_iff dest: in_set_takeD)
qed

text \<open>
  Claim C2, which the code breaks. \<open>Math.random()\<close> can be 0.5, whose \<open>toString(36)\<close> is
  \<open>"0.i"\<close>: the label is then \<open>i\<close>, one character long, which does not match the
  regular expression; the server does not check a label it made, binds it and answers
  \<open>REGISTERED\<close>.
\<close>

theorem short_random_label:
  "generateRandomSubdomain ''0.i'' = ''i''
   \<and> \<not> isValidSubdomain ''i''
   \<and> tunnels (run env init register_random) = [(''i'', 0)]
   \<and> subdomain (heap (run env init register_random) ! 0) = ''i''
   \<and> sent (run env init register_random) = [(1, Registered ''i'' ''t_k3j5x9q2'')]"
  unfolding run_def register_random_def by code_simp

subsection \<open>Closing the control channel\<close>

text \<open>
  Claim C5, as the code has it. The close handler makes no call on any public response
  and sends no frame; it leaves every tunnel object, with its streams, and every armed
  deadline timer as they are. All it does to the registry is delete the entry of the
  subdomain assigned to the connection, when one is assigned and is not the empty
  string; in every other case the registry stays as it is. The only other change is that
  the connection is no longer open.
\<close>

theorem close_only_unregisters:
  "pub (ws_close c s) = pub s \<and> heap (ws_close c s) = heap s
   \<and> timers (ws_close c s) = timers s \<and> sent (ws_close c s) = sent s
   \<and> next_timer (ws_close c s) = next_timer s
   \<and> conns (ws_close c s)
     = (case map_of (conns s) c of
          None \<Rightarrow> conns s
        | Some cn \<Rightarrow> if live cn then AList.update c (cn\<lparr>live := False\<rparr>) (conns s) else conns s)
   \<and> (map_of (conns s) c = Some cn \<and> live cn \<and> assignedSubdomain cn = Some a \<and> truthy a
      \<longrightarrow> tunnels (ws_close c s) = AList.delete a (tunnels s))
   \<and> (\<not> (\<exists>cn a. map_of (conns s) c = Some cn \<and> live cn \<and> assignedSubdomain cn = Some a
                  \<and> truthy a)
      \<longrightarrow> tunnels (ws_close c s) = tunnels s)"
  by (auto simp: ws_close_def Let_def split: option.splits)

text \<open>
  Claim C5 as amended, in the scenario. The close of the connection that registered
  \<open>app\<close> empties the registry and leaves the stream, its timer and the public response
  as they were. The close of a second connection, which registered nothing, leaves the
  registry with \<open>app\<close>.
\<close>

theorem close_only_unregisters_witness:
  "pub (ws_close 1 streaming) = [(7, Hijack)]
   \<and> map_of (streams (heap (ws_close 1 streaming) ! 0)) 1
     = Some \<lparr>reply = 7, timeout = 0, headersSent = False\<rparr>
   \<and> timers (ws_close 1 streaming) = [(0, 0, 1, 7)]
   \<and> tunnels (ws_close 1 streaming) = []
   \<and> tunnels (ws_close 2 (ws_connect 2 ''0.m41d0c8zs2'' streaming)) = [(''app'', 0)]"
proof -
  let ?two = "ws_connect 2 ''0.m41d0c8zs2'' streaming"
  have h: "map_of (conns streaming) 1 = Some app_conn \<and> live app_conn
           \<and> assignedSubdomain app_conn = Some ''app'' \<and> truthy ''app''"
    by (simp add: streaming_def app_conn_def truthy_def)
  have two: "map_of (conns ?two) 2
               = Some \<lparr>assignedSubdomain = None, conn_tunnelId = ''t_m41d0c8z'', live = True\<rparr>"
    "tunnels ?two = [(''app'', 0)]"
    unfolding streaming_def app_conn_def by code_simp+
  have n: "\<not> (\<exists>cn a. map_of (conns ?two) 2 = Some cn \<and> live cn
                    \<and> assignedSubdomain cn = Some a \<and> truthy a)"
    unfolding two by simp
  have v: "pub streaming = [(7, Hijack)]"
    "map_of (streams (heap streaming ! 0)) 1
       = Some \<lparr>reply = 7, timeout = 0, headersSent = False\<rparr>"
    "timers streaming = [(0, 0, 1, 7)]"
    "AList.delete ''app'' (tunnels streaming) = []"
    by (simp_all add: streaming_def)
  note t = close_only_unregisters [of 1 streaming app_conn "''app''"]
  have a: "pub (ws_close 1 streaming) = pub streaming"
    "heap (ws_close 1 streaming) = heap streaming"
    "timers (ws_close 1 streaming) = timers streaming"
    "tunnels (ws_close 1 streaming) = AList.delete ''app'' (tunnels streaming)"
    using t h by blast+
  have b: "tunnels (ws_close 2 ?two) = tunnels ?two"
    using close_only_unregisters [of 2 ?two] n by blast
  show ?thesis
    unfolding a b v two by (intro conjI refl)
qed

text \<open>
  Claim C5 as stated fails. In the scenario the tunnel has one stream in flight when the
  control channel closes. Whether the head of the response was already written or not,
  the close adds no call to the public response (no 502, no end of the body), and the
  stream stays in the tunnel's map with its timer armed.
\<close>

theorem close_leaves_streams:
  "map_of (streams (heap (run None init one_stream) ! 0)) 1
     = Some \<lparr>reply = 7, timeout = 0, headersSent = False\<rparr>
   \<and> pub (run None init one_stream) = [(7, Hijack)]
   \<and> pub (run None init (one_stream @ [WsClose 1])) = [(7, Hijack)]
   \<and> map_of (streams (heap (run None init (one_stream @ [WsClose 1])) ! 0)) 1
     = Some \<lparr>reply = 7, timeout = 0, headersSent = False\<rparr>
   \<and> map_of (timers (run None init (one_stream @ [WsClose 1]))) 0 = Some (0, 1, 7)
   \<and> map_of (streams (heap (run None init (one_stream @ [head_arrives])) ! 0)) 1
     = Some \<lparr>reply = 7, timeout = 0, headersSent = True\<rparr>
   \<and> pub (run None init (one_stream @ [head_arrives]))
     = [(7, Hijack), (7, WriteHead 200 [(''Content-Type'', ''text/plain'')])]
   \<and> pub (run None init (one_stream @ [head_arrives, WsClose 1]))
     = [(7, Hijack), (7, WriteHead 200 [(''Content-Type'', ''text/plain'')])]
   \<and> map_of (streams (heap (run None init (one_stream @ [head_arrives, WsClose 1])) ! 0)) 1
     = Some \<lparr>reply = 7, timeout = 0, headersSent = True\<rparr>"
proof -
  have a: "run None init (one_stream @ [WsClose 1]) = step None streaming (WsClose 1)"
    by (simp add: run_snoc run_one_stream)
  have b: "run None init (one_stream @ [head_arrives, WsClose 1]) = step None started (WsClose 1)"
    using run_snoc [of None init "one_stream @ [head_arrives]" "WsClose 1"]
    by (simp add: run_head_arrives)
  show ?thesis
    unfolding a b run_head_arrives run_one_stream close_streaming close_started
    by (simp add: streaming_def started_def)
qed

subsection \<open>The deadline\<close>

text \<open>
  What the deadline callback does is the same whether the head was sent or not: it
  removes the stream from the map of the tunnel object it captured and calls
  \<open>reply.code(504).send\<close>. A frame for a stream that is not in the map changes nothing.
\<close>

lemma timer_fires_effect:
  assumes "map_of (timers s) t = Some (p, sid, rid)" and "p < length (heap s)"
  shows "map_of (streams (heap (timer_fires t s) ! p)) sid = None
         \<and> pub (timer_fires t s) = pub s @ [(rid, ReplySend 504 (ErrorObj ''Upstream timeout''))]
         \<and> map_of (timers (timer_fires t s)) t = None"
  using assms by (simp add: timer_fires_def AList.delete_conv)

lemma frame_for_missing_stream:
  assumes "conn_info cn s = Some (p, info)" and "map_of (streams info) sid = None"
  shows "resp_start cn sid sc hs s = s \<and> resp_data cn sid chunk s = s
         \<and> end_stream cn sid ph s = s"
  using assms by (simp add: resp_start_def resp_data_def end_stream_def)

subsection \<open>Stream ids\<close>

lemma length_heap_register:
  "length (heap (register_tunnel c cn x r now s)) \<ge> length (heap s)"
  by (simp add: register_tunnel_def Let_def)

lemma nth_heap_register:
  "p < length (heap s) \<Longrightarrow> heap (register_tunnel c cn x r now s) ! p = heap s ! p"
  by (simp add: register_tunnel_def Let_def nth_append)

lemma heap_resp_start:
  "length (heap (resp_start cn sid sc hs s)) = length (heap s)
   \<and> nextStreamId (heap (resp_start cn sid sc hs s) ! p) = nextStreamId (heap s ! p)"
  by (auto simp: resp_start_def conn_info_def nth_list_update split: option.splits if_splits)

lemma heap_resp_data: "heap (resp_data cn sid chunk s) = heap s"
  by (auto simp: resp_data_def split: option.splits)

lemma heap_end_stream:
  "length (heap (end_stream cn sid ph s)) = length (heap s)
   \<and> nextStreamId (heap (end_stream cn sid ph s) ! p) = nextStreamId (heap s ! p)"
  by (auto simp: end_stream_def conn_info_def nth_list_update split: option.splits if_splits)

lemma heap_timer_fires:
  "length (heap (timer_fires t s)) = length (heap s)
   \<and> nextStreamId (heap (timer_fires t s) ! p) = nextStreamId (heap s ! p)"
proof (cases "map_of (timers s) t")
  case None
  then show ?thesis by (simp add: timer_fires_def)
next
  case (Some x)
  obtain a sid rid where x: "x = (a, sid, rid)" by (cases x) auto
  have "nextStreamId
          ((heap s)[a := (\<lambda>i. i\<lparr>streams := AList.delete sid (streams i)\<rparr>) (heap s ! a)] ! p)
        = nextStreamId (heap s ! p)"
    by (rule nth_update_same) simp
  with Some x show ?thesis by (simp add: timer_fires_def)
qed

lemma heap_ws_connect: "heap (ws_connect c r s) = heap s"
  by (simp add: ws_connect_def)

lemma heap_ws_close: "heap (ws_close c s) = heap s"
  by (auto simp: ws_close_def Let_def split: option.splits)

lemma heap_ws_message:
  "length (heap s) \<le> length (heap (ws_message c msg r now s))
   \<and> (p < length (heap s) \<longrightarrow>
        nextStreamId (heap (ws_message c msg r now s) ! p) = nextStreamId (heap s ! p))"
proof (cases "map_of (conns s) c")
  case None
  then show ?thesis by (simp add: ws_message_def)
next
  case (Some cn)
  show ?thesis
  proof (cases "live cn")
    case False
    with Some show ?thesis by (simp add: ws_message_def)
  next
    case True
    show ?thesis
    proof (cases msg)
      case (RegisterTunnel x)
      with Some True show ?thesis
        by (simp add: ws_message_def length_heap_register nth_heap_register)
    next
      case (RespStart tid sid sc hs)
      with Some True heap_resp_start [of cn sid sc hs s p] show ?thesis
        by (simp add: ws_message_def)
    next
      case (RespData tid sid chunk)
      with Some True show ?thesis by (simp add: ws_message_def heap_resp_data)
    next
      case (End tid sid ph)
      with Some True heap_end_stream [of cn sid ph s p] show ?thesis
        by (simp add: ws_message_def)
    qed (use Some True in \<open>simp_all add: ws_message_def\<close>)
  qed
qed

lemma heap_public_request:
  "length (heap (public_request env rid req s)) = length (heap s)
   \<and> (p < length (heap s) \<longrightarrow>
        nextStreamId (heap (public_request env rid req s) ! p)
        = (if routed env s req = Some p then js_inc (nextStreamId (heap s ! p))
           else nextStreamId (heap s ! p)))"
  by (auto simp: public_request_def routed_def Let_def nth_list_update tunnels_get_def
      split: option.splits if_splits)

lemma length_heap_public_request:
  "length (heap (public_request env rid req s)) = length (heap s)"
  using heap_public_request [of env rid req s 0] by simp

lemma tunnels_get_public_request:
  "tunnels_get (public_request env rid req s) sub = tunnels_get s sub"
  by (simp add: tunnels_get_def length_heap_public_request frames_keep_registry
      split: option.splits)

lemma routed_public_request:
  "routed env (public_request env rid req s) req' = routed env s req'"
  by (simp add: routed_def tunnels_get_public_request split: option.splits)

lemma routed_bound: "routed env s req = Some p \<Longrightarrow> p < length (heap s)"
  by (auto simp: routed_def tunnels_get_def split: option.splits if_splits)

text \<open>
  The id that \<^const>\<open>allocs\<close> records for a routed request is the one the handler
  uses: the key of the new entry of the tunnel's stream map, and the \<open>streamId\<close> of the
  \<open>OPEN_STREAM\<close> it sends on the tunnel's socket.
\<close>

lemma public_request_allocates:
  assumes "routed env s req = Some p"
  shows "map_of (streams (heap (public_request env rid req s) ! p)) (nextStreamId (heap s ! p))
           = Some \<lparr>reply = rid, timeout = next_timer s, headersSent = False\<rparr>
         \<and> (\<exists>pth. (ws (heap s ! p),
                     OpenStream (tunnelId (heap s ! p)) (nextStreamId (heap s ! p))
                       (req_method req) pth (headers_loop [] (req_headers req)))
                    \<in> set (sent (public_request env rid req s)))"
proof -
  from assms obtain sub
    where r: "request_sub env req = Some sub" "truthy sub" "tunnels_get s sub = Some p"
    by (auto simp: routed_def split: option.splits if_splits)
  have p: "p < length (heap s)" using assms by (rule routed_bound)
  show ?thesis
    using r p by (auto simp: public_request_def Let_def AList.update_conv')
qed

text \<open>
  Only a public request routed to a tunnel object changes its counter, and no step
  removes an object.
\<close>

lemma step_heap:
  "length (heap s) \<le> length (heap (step env s ev))
   \<and> (p < length (heap s) \<longrightarrow>
        nextStreamId (heap (step env s ev) ! p)
        = (case ev of
             PublicRequest rid req \<Rightarrow>
               if routed env s req = Some p then js_inc (nextStreamId (heap s ! p))
               else nextStreamId (heap s ! p)
           | _ \<Rightarrow> nextStreamId (heap s ! p)))"
proof (cases ev)
  case (WsConnect c r)
  then show ?thesis by (simp add: heap_ws_connect)
next
  case (WsMessage c msg r now)
  then show ?thesis using heap_ws_message [of s c msg r now p] by simp
next
  case (WsClose c)
  then show ?thesis by (simp add: heap_ws_close)
next
  case (PublicRequest rid req)
  then show ?thesis using heap_public_request [of env rid req s p] by simp
next
  case (TimerFires t)
  then show ?thesis using heap_timer_fires [of t s p] by simp
qed

lemma allocs_contiguous:
  "p < length (heap s) \<Longrightarrow> nextStreamId (heap s ! p) = n \<Longrightarrow>
   n + length (allocs env p s evs) \<le> 2 ^ 53 \<Longrightarrow>
   allocs env p s evs = [n ..< n + length (allocs env p s evs)]"
proof (induction evs arbitrary: s n)
  case Nil
  then show ?case by simp
next
  case (Cons ev evs)
  let ?s' = "step env s ev"
  have len: "p < length (heap ?s')" using step_heap [of s env ev p] Cons.prems(1) by simp
  show ?case
  proof (cases "\<exists>rid req. ev = PublicRequest rid req \<and> routed env s req = Some p")
    case True
    then obtain rid req where ev: "ev = PublicRequest rid req" and r: "routed env s req = Some p"
      by blast
    have a: "allocs env p s (ev # evs) = n # allocs env p ?s' evs"
      using ev r Cons.prems(2) by simp
    then have bound: "Suc n + length (allocs env p ?s' evs) \<le> 2 ^ 53"
      using Cons.prems(3) by simp
    then have "n < 2 ^ 53" by simp
    then have nx: "nextStreamId (heap ?s' ! p) = Suc n"
      using step_heap [of s env ev p] Cons.prems(1,2) ev r by (simp add: js_inc_def)
    have "allocs env p ?s' evs = [Suc n ..< Suc n + length (allocs env p ?s' evs)]"
      using Cons.IH [OF len nx bound] .
    then have "n # allocs env p ?s' evs = [n ..< n + Suc (length (allocs env p ?s' evs))]"
      by (metis add_Suc add_Suc_right less_add_Suc1 upt_conv_Cons)
    with a show ?thesis by simp
  next
    case False
    then have a: "allocs env p s (ev # evs) = allocs env p ?s' evs"
      by (cases ev) auto
    have nx: "nextStreamId (heap ?s' ! p) = n"
      using step_heap [of s env ev p] Cons.prems(1,2) False by (cases ev) auto
    from a Cons.prems(3) have "n + length (allocs env p ?s' evs) \<le> 2 ^ 53" by simp
    from Cons.IH [OF len nx this] a show ?thesis by simp
  qed
qed

lemma register_heap:
  "heap (register_tunnel c cn x r now s) = heap s
   \<or> (\<exists>info. heap (register_tunnel c cn x r now s) = heap s @ [info] \<and> nextStreamId info = 1)"
  by (simp add: register_tunnel_def Let_def)

lemma ws_message_register_heap:
  assumes "length (heap (ws_message c (RegisterTunnel x) r now s)) \<noteq> length (heap s)"
  shows "\<exists>info. heap (ws_message c (RegisterTunnel x) r now s) = heap s @ [info]
                \<and> nextStreamId info = 1"
proof -
  from assms obtain cn
    where "ws_message c (RegisterTunnel x) r now s = register_tunnel c cn x r now s"
    by (auto simp: ws_message_def split: option.splits if_splits)
  with assms register_heap [of c cn x r now s] show ?thesis by auto
qed

text \<open>
  Claim C8, as the code has it. When a \<open>REGISTER_TUNNEL\<close> message creates a tunnel
  object, its \<open>nextStreamId\<close> is 1, and in any run that follows, the stream ids
  allocated on that object are 1, 2, 3, and so on in order, one per public request routed
  to it, as long as fewer than \<open>2^53\<close> have been allocated.
\<close>

theorem stream_ids_contiguous:
  assumes "length (heap (ws_message c (RegisterTunnel x) r now s)) \<noteq> length (heap s)"
    and "length (allocs env (length (heap s)) (ws_message c (RegisterTunnel x) r now s) evs)
         < 2 ^ 53"
  shows "nextStreamId (heap (ws_message c (RegisterTunnel x) r now s) ! length (heap s)) = 1
    \<and> allocs env (length (heap s)) (ws_message c (RegisterTunnel x) r now s) evs
      = [1 ..< 1 + length (allocs env (length (heap s))
                            (ws_message c (RegisterTunnel x) r now s) evs)]"
proof -
  let ?s = "ws_message c (RegisterTunnel x) r now s"
  from ws_message_register_heap [OF assms(1)]
  obtain info where h: "heap ?s = heap s @ [info]" and n: "nextStreamId info = 1" by blast
  have p: "length (heap s) < length (heap ?s)" using h by simp
  have n1: "nextStreamId (heap ?s ! length (heap s)) = 1" using h n by simp
  have "1 + length (allocs env (length (heap s)) ?s evs) \<le> 2 ^ 53" using assms(2) by simp
  from allocs_contiguous [OF p n1 this] n1 show ?thesis by simp
qed

lemma routed_registered: "routed None registered app_request = Some 0"
  by (simp add: routed_def request_sub_app truthy_def tunnels_get_def registered_def)

lemma routed_streaming: "routed None streaming app_request = Some 0"
  using routed_public_request [of None 7 app_request registered app_request]
  by (simp add: request_registered routed_registered)

text \<open>
  Claim C8 as amended, in the scenario: the registration of \<open>app\<close> creates the object at
  address 0, and two requests for \<open>app.localhost\<close> get the stream ids 1 and 2.
\<close>

theorem stream_ids_contiguous_witness:
  "nextStreamId
     (heap (ws_message 1 (RegisterTunnel (Some ''app'')) ''0.4fzyo82mvyr'' 1000 connected)
        ! length (heap connected)) = 1
   \<and> allocs None (length (heap connected))
       (ws_message 1 (RegisterTunnel (Some ''app'')) ''0.4fzyo82mvyr'' 1000 connected)
       [PublicRequest 7 app_request, PublicRequest 8 app_request]
     = [1, 2]"
proof -
  let ?evs = "[PublicRequest 7 app_request, PublicRequest 8 app_request]"
  have l0: "length (heap connected) = 0" by (simp add: connected_def)
  have n1: "nextStreamId (heap registered ! 0) = 1" by (simp add: registered_def)
  have n2: "nextStreamId (heap streaming ! 0) = 2" by (simp add: streaming_def)
  have a: "allocs None 0 registered ?evs = [1, 2]"
    by (simp add: routed_registered routed_streaming request_registered n1 n2)
  have h1: "length (heap (ws_message 1 (RegisterTunnel (Some ''app'')) ''0.4fzyo82mvyr'' 1000
                             connected))
            \<noteq> length (heap connected)"
    unfolding register_connected l0 by (simp add: registered_def)
  have h2: "length (allocs None (length (heap connected))
                      (ws_message 1 (RegisterTunnel (Some ''app'')) ''0.4fzyo82mvyr'' 1000
                         connected) ?evs)
            < 2 ^ 53"
    unfolding register_connected l0 a by simp
  have u: "[1 ..< 1 + length [1::nat, 2]] = [1::nat, 2]"
    by (simp add: upt_rec)
  show ?thesis
    using stream_ids_contiguous [OF h1 h2]
    unfolding register_connected l0 a u by blast
qed

lemma js_inc_min: "n \<le> 2 ^ 53 \<Longrightarrow> min (js_inc n + i) (2 ^ 53) = min (n + Suc i) (2 ^ 53)"
  by (auto simp: js_inc_def)

lemma js_inc_le: "n \<le> 2 ^ 53 \<Longrightarrow> js_inc n \<le> 2 ^ 53"
  by (auto simp: js_inc_def)

text \<open>
  The ids of \<open>k\<close> requests in a row to one tunnel object: the counter plus the number of
  requests before, capped at \<open>2^53\<close>.
\<close>

lemma allocs_replicate:
  "routed env s req = Some p \<Longrightarrow> nextStreamId (heap s ! p) \<le> 2 ^ 53 \<Longrightarrow>
   allocs env p s (replicate k (PublicRequest rid req))
   = map (\<lambda>i. min (nextStreamId (heap s ! p) + i) (2 ^ 53)) [0..<k]"
proof (induction k arbitrary: s)
  case 0
  then show ?case by simp
next
  case (Suc k)
  let ?s' = "public_request env rid req s"
  let ?n = "nextStreamId (heap s ! p)"
  have p: "p < length (heap s)" using Suc.prems(1) by (rule routed_bound)
  have r: "routed env ?s' req = Some p" using Suc.prems(1) by (simp add: routed_public_request)
  have n: "nextStreamId (heap ?s' ! p) = js_inc ?n"
    using heap_public_request [of env rid req s p] p Suc.prems(1) by simp
  have le: "nextStreamId (heap ?s' ! p) \<le> 2 ^ 53" using js_inc_le [OF Suc.prems(2)] n by simp
  have "allocs env p s (replicate (Suc k) (PublicRequest rid req))
        = ?n # allocs env p ?s' (replicate k (PublicRequest rid req))"
    using Suc.prems(1) by simp
  also have "allocs env p ?s' (replicate k (PublicRequest rid req))
        = map (\<lambda>i. min (js_inc ?n + i) (2 ^ 53)) [0..<k]"
    using Suc.IH [OF r le] n by simp
  also have "\<dots> = map (\<lambda>i. min (?n + Suc i) (2 ^ 53)) [0..<k]"
    by (rule map_cong [OF refl]) (rule js_inc_min [OF Suc.prems(2)])
  also have "?n # \<dots> = map (\<lambda>i. min (?n + i) (2 ^ 53)) [0..<Suc k]"
  proof -
    have "[0..<Suc k] = 0 # [Suc 0..<Suc k]"
      by (rule upt_conv_Cons) simp
    then have "[0..<Suc k] = 0 # map Suc [0..<k]"
      by (simp only: map_Suc_upt)
    then show ?thesis using Suc.prems(2) by (simp add: comp_def del: upt_Suc)
  qed
  finally show ?case .
qed

lemma allocs_register_app:
  "allocs None 0 init (register_app @ evs) = allocs None 0 registered evs"
  using run_register_app
  by (simp add: register_app_def run_def)

text \<open>
  Claim C8 as stated fails. After the registration of \<open>app\<close>, \<open>2^53 + 1\<close> public
  requests arrive for it. The counter is a JavaScript number and stops growing at
  \<open>2^53\<close>: the last two requests both get the stream id \<open>2^53\<close>.
\<close>

theorem stream_ids_repeat:
  "length (allocs None 0 init (register_app @ replicate (2 ^ 53 + 1) (PublicRequest 7 app_request)))
     = 2 ^ 53 + 1
   \<and> allocs None 0 init (register_app @ replicate (2 ^ 53 + 1) (PublicRequest 7 app_request))
       ! (2 ^ 53 - 1) = 2 ^ 53
   \<and> allocs None 0 init (register_app @ replicate (2 ^ 53 + 1) (PublicRequest 7 app_request))
       ! (2 ^ 53) = 2 ^ 53"
proof -
  have n: "nextStreamId (heap registered ! 0) = 1" by (simp add: registered_def)
  have a: "allocs None 0 init (register_app @ replicate k (PublicRequest 7 app_request))
           = map (\<lambda>i. min (1 + i) (2 ^ 53)) [0..<k]" for k
    using allocs_replicate [OF routed_registered, of k 7] n
    by (simp only: allocs_register_app) simp
  have l: "length (map (\<lambda>i. min (1 + i) (2 ^ 53 :: nat)) [0..<k]) = k" for k
    by simp
  have i: "i < k \<Longrightarrow> map (\<lambda>i. min (1 + i) (2 ^ 53 :: nat)) [0..<k] ! i = min (1 + i) (2 ^ 53)"
    for i k
    by simp
  have i1: "min (1 + (2 ^ 53 - 1)) (2 ^ 53 :: nat) = 2 ^ 53" by simp
  have i2: "min (1 + 2 ^ 53) (2 ^ 53 :: nat) = 2 ^ 53" by simp
  have b1: "(2 ^ 53 - 1 :: nat) < 2 ^ 53 + 1" by simp
  have b2: "(2 ^ 53 :: nat) < 2 ^ 53 + 1" by simp
  show ?thesis
    unfolding a l i [OF b1] i [OF b2] i1 i2 by (intro conjI refl)
qed

subsection \<open>The request headers that cross the tunnel\<close>

lemma headers_loop_entries:
  "(k, x) \<in> set (headers_loop out h) \<Longrightarrow> (k, x) \<in> set out \<or> (k, HStr x) \<in> set h"
proof (induction out h rule: headers_loop.induct)
  case (1 out)
  then show ?case by simp
next
  case (2 out k' v rest)
  show ?case
  proof (cases v)
    case (HStr y)
    with 2 have "(k, x) \<in> set (AList.update k' y out) \<or> (k, HStr x) \<in> set rest" by simp
    then show ?thesis using HStr
      by (auto dest: in_update)
  qed (use 2 in auto)
qed

lemma headers_loop_keys:
  "fst ` set (headers_loop out h) = fst ` set out \<union> {k. \<exists>x. (k, HStr x) \<in> set h}"
proof (induction out h rule: headers_loop.induct)
  case (1 out)
  then show ?case by simp
next
  case (2 out k' v rest)
  show ?case
  proof (cases v)
    case (HStr y)
    with 2 show ?thesis by (auto simp: AList.dom_update)
  qed (use 2 in auto)
qed

lemma headers_loop_distinct:
  "distinct (map fst h) \<Longrightarrow> fst ` set out \<inter> fst ` set h = {} \<Longrightarrow>
   headers_loop out h = out @ [(k, x). (k, HStr x) \<leftarrow> h]"
proof (induction out h rule: headers_loop.induct)
  case (1 out)
  then show ?case by simp
next
  case (2 out k v rest)
  from "2.prems" have d: "distinct (map fst rest)" by simp
  show ?case
  proof (cases v)
    case (HStr y)
    from "2.prems" have fresh: "k \<notin> fst ` set out" by auto
    have u: "AList.update k y out = out @ [(k, y)]" using fresh by (rule update_fresh)
    from "2.prems" have "fst ` set (out @ [(k, y)]) \<inter> fst ` set rest = {}" by auto
    with "2.IH"(1) [OF HStr d] u HStr show ?thesis by simp
  next
    case (HArr a)
    from "2.prems" have "fst ` set out \<inter> fst ` set rest = {}" by auto
    with "2.IH"(2) [OF HArr d] HArr show ?thesis by simp
  next
    case HUndef
    from "2.prems" have "fst ` set out \<inter> fst ` set rest = {}" by auto
    with "2.IH"(3) [OF HUndef d] HUndef show ?thesis by simp
  qed
qed

text \<open>The frames that the public handler sends: none, or one stream's request.\<close>

lemma sent_public_request_routed:
  assumes "routed env s req = Some p"
  shows "\<exists>pth body.
           sent (public_request env rid req s)
           = sent s @ (ws (heap s ! p),
                       OpenStream (tunnelId (heap s ! p)) (nextStreamId (heap s ! p))
                         (req_method req) pth (headers_loop [] (req_headers req)))
                    # map (\<lambda>chunk. (ws (heap s ! p),
                            ReqData (tunnelId (heap s ! p)) (nextStreamId (heap s ! p))
                              (Some chunk))) body
                    @ [(ws (heap s ! p),
                        End (tunnelId (heap s ! p)) (nextStreamId (heap s ! p)) (Some Req))]"
proof -
  from assms obtain sub
    where "request_sub env req = Some sub" "truthy sub" "tunnels_get s sub = Some p"
    by (auto simp: routed_def split: option.splits if_splits)
  then show ?thesis
    by (cases "req_readable req \<and> req_method req \<notin> {''GET'', ''HEAD''}")
       (auto simp: public_request_def Let_def intro: exI [of _ "[]"])
qed

lemma sent_public_request:
  "sent (public_request env rid req s) = sent s
   \<or> (\<exists>w tid sid pth body.
        sent (public_request env rid req s)
        = sent s @ (w, OpenStream tid sid (req_method req) pth (headers_loop [] (req_headers req)))
                 # map (\<lambda>chunk. (w, ReqData tid sid (Some chunk))) body
                 @ [(w, End tid sid (Some Req))])"
proof (cases "routed env s req")
  case None
  then show ?thesis
    by (auto simp: public_request_def routed_def split: option.splits if_splits)
next
  case (Some p)
  then obtain sub where "request_sub env req = Some sub" "truthy sub" "tunnels_get s sub = Some p"
    by (auto simp: routed_def split: option.splits if_splits)
  then show ?thesis
    by (cases "req_readable req \<and> req_method req \<notin> {''GET'', ''HEAD''}")
       (auto simp: public_request_def Let_def intro: exI [of _ "[]"])
qed

section \<open>Properties of the client\<close>

lemma wire_handleOpenStream:
  "wire (handleOpenStream cfg tid sid m pth hs given origin st)
   = wire st @ response_frames tid sid origin"
  by (simp add: handleOpenStream_def Let_def)

lemma wire_handleBufferedRequest:
  "wire (handleBufferedRequest cfg sid entry origin st)
   = wire st @ response_frames (ctx_tunnelId entry) sid origin"
  by (simp add: handleBufferedRequest_def Let_def)

lemma wire_client_message:
  "wire (client_message cfg msg origin st) = wire st
   \<or> (\<exists>tid sid. wire (client_message cfg msg origin st)
                  = wire st @ response_frames tid sid origin)"
proof (cases msg)
  case (OpenStream tid sid m pth hs)
  then show ?thesis
    by (auto simp: client_message_def Let_def wire_handleOpenStream)
next
  case (ReqData tid sid chunk)
  then show ?thesis
    by (auto simp: client_message_def split: option.splits mode.splits prod.splits)
next
  case (End tid sid ph)
  then show ?thesis
    by (auto simp: client_message_def wire_handleBufferedRequest
        split: option.splits mode.splits prod.splits)
qed (simp_all add: client_message_def)

subsection \<open>The response headers that cross the tunnel\<close>

lemma objectifyHeaders_loop_entries:
  "(k, x) \<in> set (objectifyHeaders_loop out ps) \<Longrightarrow>
   (k, x) \<in> set out \<or> (JStr k, JStr x) \<in> set ps"
proof (induction out ps rule: objectifyHeaders_loop.induct)
  case (1 out)
  then show ?case by simp
next
  case (2 out k' v' rest)
  show ?case
  proof (cases "\<exists>a b. k' = JStr a \<and> v' = JStr b")
    case True
    then obtain a b where ab: "k' = JStr a" "v' = JStr b" by blast
    with 2 have "(k, x) \<in> set (AList.update a b out) \<or> (JStr k, JStr x) \<in> set rest" by simp
    then show ?thesis using ab
      by (auto dest: in_update)
  next
    case False
    then have "objectifyHeaders_loop out ((k', v') # rest) = objectifyHeaders_loop out rest"
      by (cases k'; cases v') simp_all
    with 2 False show ?thesis by (cases k'; cases v') auto
  qed
qed

lemma objectifyHeaders_loop_keys:
  "fst ` set (objectifyHeaders_loop out ps)
   = fst ` set out \<union> {k. \<exists>x. (JStr k, JStr x) \<in> set ps}"
proof (induction out ps rule: objectifyHeaders_loop.induct)
  case (1 out)
  then show ?case by simp
next
  case (2 out k' v' rest)
  show ?case
  proof (cases "\<exists>a b. k' = JStr a \<and> v' = JStr b")
    case True
    then obtain a b where ab: "k' = JStr a" "v' = JStr b" by blast
    with 2 show ?thesis by (auto simp: AList.dom_update)
  next
    case False
    then have "objectifyHeaders_loop out ((k', v') # rest) = objectifyHeaders_loop out rest"
      by (cases k'; cases v') simp_all
    with 2 False show ?thesis by (cases k'; cases v') auto
  qed
qed

lemma objectifyHeaders_entries:
  "(k, x) \<in> set (objectifyHeaders rh) \<Longrightarrow> \<exists>ps. rh = Pairs ps \<and> (JStr k, JStr x) \<in> set ps"
  using objectifyHeaders_loop_entries [of k x "[]"]
  by (cases rh) (auto simp: objectifyHeaders_def)

text \<open>
  A \<open>RESP_START\<close> of the client is the one of the \<open>catch\<close> block, with 502 and no
  header map, or the one of the \<open>try\<close> block, with the origin's status and what
  \<open>objectifyHeaders\<close> makes of the origin's headers.
\<close>

lemma resp_start_in_response_frames:
  "RespStart tid sid sc hs \<in> set (response_frames tid' sid' origin) \<Longrightarrow>
   (sc = Some 502 \<and> hs = None)
   \<or> (\<exists>status rh parts fin. origin = Response status rh parts fin \<and> sc = Some status
        \<and> hs = Some (objectifyHeaders rh))"
  by (cases origin) (auto simp: response_frames_def catch_frames_def split: body_end.splits)

text \<open>
  Claim C10. The header map of the \<open>OPEN_STREAM\<close> that the public handler sends for a
  routed request is what the headers loop makes of \<open>req.headers\<close>: each of its entries is
  an entry of the request whose value is a string, its keys are the keys of all those
  entries, and (the keys of \<open>req.headers\<close> being distinct) it is exactly those entries,
  in order, with their keys and values; a header whose value is an array is left out,
  not joined. The header map of a \<open>RESP_START\<close> that the client sends is absent (the 502
  of the \<open>catch\<close> block) or what \<open>objectifyHeaders\<close> makes of the origin's headers. Of
  the plain object that undici gives, \<open>objectifyHeaders\<close> makes the empty map, whatever
  the object holds: no entry with an array for a value crosses, and none with a string
  either, and no exception leaves the function. Of something that yields pairs,
  \<open>objectifyHeaders\<close> keeps the pairs of two strings, under all their keys, and nothing
  else.
\<close>

theorem only_string_headers_cross:
  "(\<forall>w tid sid m pth hs.
       (w, OpenStream tid sid m pth hs)
         \<in> set (drop (length (sent s)) (sent (public_request env rid req s)))
     \<longrightarrow> hs = headers_loop [] (req_headers req))
   \<and> (routed env s req = Some p
     \<longrightarrow> (\<exists>pth. (ws (heap s ! p),
                 OpenStream (tunnelId (heap s ! p)) (nextStreamId (heap s ! p)) (req_method req)
                   pth (headers_loop [] (req_headers req)))
                \<in> set (drop (length (sent s)) (sent (public_request env rid req s)))))
   \<and> set (headers_loop [] h) \<subseteq> {(k, x). (k, HStr x) \<in> set h}
   \<and> fst ` set (headers_loop [] h) = {k. \<exists>x. (k, HStr x) \<in> set h}
   \<and> (distinct (map fst h) \<longrightarrow> headers_loop [] h = [(k, x). (k, HStr x) \<leftarrow> h])
   \<and> (\<forall>k a. distinct (map fst h) \<and> (k, HArr a) \<in> set h
          \<longrightarrow> k \<notin> fst ` set (headers_loop [] h))
   \<and> (\<forall>tid sid sc hs.
       RespStart tid sid sc hs
         \<in> set (drop (length (wire st)) (wire (client_message cfg msg origin st)))
     \<longrightarrow> (sc = Some 502 \<and> hs = None)
         \<or> (\<exists>status rh parts fin. origin = Response status rh parts fin \<and> sc = Some status
              \<and> hs = Some (objectifyHeaders rh)))
   \<and> objectifyHeaders NoHeaders = []
   \<and> objectifyHeaders (PlainObject ob) = []
   \<and> set (objectifyHeaders (Pairs ps)) \<subseteq> {(k, x). (JStr k, JStr x) \<in> set ps}
   \<and> fst ` set (objectifyHeaders (Pairs ps)) = {k. \<exists>x. (JStr k, JStr x) \<in> set ps}"
proof (intro conjI allI impI)
  fix w tid sid m pth hs
  assume "(w, OpenStream tid sid m pth hs)
         \<in> set (drop (length (sent s)) (sent (public_request env rid req s)))"
  with sent_public_request [of env rid req s]
  show "hs = headers_loop [] (req_headers req)" by auto
next
  assume "routed env s req = Some p"
  from sent_public_request_routed [OF this, of rid]
  show "\<exists>pth. (ws (heap s ! p),
                 OpenStream (tunnelId (heap s ! p)) (nextStreamId (heap s ! p)) (req_method req)
                   pth (headers_loop [] (req_headers req)))
                \<in> set (drop (length (sent s)) (sent (public_request env rid req s)))"
    by auto
next
  show "set (headers_loop [] h) \<subseteq> {(k, x). (k, HStr x) \<in> set h}"
    using headers_loop_entries [of _ _ "[]" h] by auto
next
  show "fst ` set (headers_loop [] h) = {k. \<exists>x. (k, HStr x) \<in> set h}"
    using headers_loop_keys [of "[]" h] by simp
next
  assume "distinct (map fst h)"
  then show "headers_loop [] h = [(k, x). (k, HStr x) \<leftarrow> h]"
    using headers_loop_distinct [of h "[]"] by simp
next
  fix k a
  assume a: "distinct (map fst h) \<and> (k, HArr a) \<in> set h"
  show "k \<notin> fst ` set (headers_loop [] h)"
  proof
    assume "k \<in> fst ` set (headers_loop [] h)"
    then obtain x where "(k, HStr x) \<in> set h"
      using headers_loop_keys [of "[]" h] by auto
    with a show False
      by (metis eq_key_imp_eq_value hval.distinct(1))
  qed
next
  fix tid sid sc hs
  assume "RespStart tid sid sc hs
         \<in> set (drop (length (wire st)) (wire (client_message cfg msg origin st)))"
  with wire_client_message [of cfg msg origin st]
  obtain tid' sid' where "RespStart tid sid sc hs \<in> set (response_frames tid' sid' origin)"
    by auto
  then show "(sc = Some 502 \<and> hs = None)
         \<or> (\<exists>status rh parts fin. origin = Response status rh parts fin \<and> sc = Some status
              \<and> hs = Some (objectifyHeaders rh))"
    by (rule resp_start_in_response_frames)
next
  show "objectifyHeaders NoHeaders = []" by (simp add: objectifyHeaders_def)
next
  show "objectifyHeaders (PlainObject ob) = []" by (simp add: objectifyHeaders_def)
next
  show "set (objectifyHeaders (Pairs ps)) \<subseteq> {(k, x). (JStr k, JStr x) \<in> set ps}"
    using objectifyHeaders_loop_entries [of _ _ "[]" ps] by (auto simp: objectifyHeaders_def)
next
  show "fst ` set (objectifyHeaders (Pairs ps)) = {k. \<exists>x. (JStr k, JStr x) \<in> set ps}"
    using objectifyHeaders_loop_keys [of "[]" ps] by (simp add: objectifyHeaders_def)
qed

text \<open>
  Claim C10, in the scenario. The request has \<open>host\<close>, \<open>accept\<close> and an array-valued
  \<open>set-cookie\<close>: the \<open>OPEN_STREAM\<close> is sent and carries \<open>host\<close> and \<open>accept\<close>, and
  \<open>set-cookie\<close> is not among its keys. The origin answers 200 with \<open>content-type\<close> and
  an array-valued \<open>set-cookie\<close>, in the plain object that undici gives: the
  \<open>RESP_START\<close> carries the status and an empty header map.
\<close>

theorem only_string_headers_cross_witness:
  "headers_loop [] (req_headers app_request)
     = [(''host'', ''app.localhost''), (''accept'', ''*/*'')]
   \<and> (\<exists>pth. (ws (heap registered ! 0),
               OpenStream (tunnelId (heap registered ! 0)) (nextStreamId (heap registered ! 0))
                 (req_method app_request) pth (headers_loop [] (req_headers app_request)))
              \<in> set (drop (length (sent registered))
                        (sent (public_request None 7 app_request registered))))
   \<and> [(''host'', ''app.localhost''), (''accept'', ''*/*'')]
     = headers_loop [] (req_headers app_request)
   \<and> ''set-cookie'' \<notin> fst ` set (headers_loop [] (req_headers app_request))
   \<and> wire (client_message cfg0 ping_open (Response 200 set_cookie_head [''pong''] Eof)
             client_init)
     = [RespStart ''t_k3j5x9q2'' 1 (Some 200) (Some []),
        RespData ''t_k3j5x9q2'' 1 (Some ''pong''),
        End ''t_k3j5x9q2'' 1 (Some Res)]
   \<and> (\<exists>status rh parts fin.
         Response 200 set_cookie_head [''pong''] Eof = Response status rh parts fin
         \<and> Some 200 = Some status \<and> Some [] = Some (objectifyHeaders rh))"
proof -
  let ?hs = "[(''host'', ''app.localhost''), (''accept'', ''*/*'')]"
  let ?open = "(1::nat, OpenStream ''t_k3j5x9q2'' 1 ''GET'' ''/ping'' ?hs)"
  let ?origin = "Response 200 set_cookie_head [''pong''] Eof"
  let ?start = "RespStart ''t_k3j5x9q2'' 1 (Some 200) (Some [])"
  have rh: "req_headers app_request
              = [(''host'', HStr ''app.localhost''), (''accept'', HStr ''*/*''),
                 (''set-cookie'', HArr [''a=1'', ''b=2''])]"
    by (simp add: app_request_def)
  have s: "sent (public_request None 7 app_request registered)
           = sent registered @ [?open, (1, End ''t_k3j5x9q2'' 1 (Some Req))]"
    by (simp add: request_registered) (simp add: streaming_def registered_def)
  have w: "wire (client_message cfg0 ping_open ?origin client_init)
           = [?start, RespData ''t_k3j5x9q2'' 1 (Some ''pong''), End ''t_k3j5x9q2'' 1 (Some Res)]"
    by code_simp
  have h1: "?open \<in> set (drop (length (sent registered))
                           (sent (public_request None 7 app_request registered)))"
    by (simp add: s)
  have h2: "distinct (map fst (req_headers app_request))"
    by (simp add: rh)
  have h3: "distinct (map fst (req_headers app_request))
            \<and> (''set-cookie'', HArr [''a=1'', ''b=2'']) \<in> set (req_headers app_request)"
    by (simp add: rh)
  have h4: "?start \<in> set (drop (length (wire client_init))
                            (wire (client_message cfg0 ping_open ?origin client_init)))"
    by (simp add: w) (simp add: client_init_def)
  have c: "[(k, x). (k, HStr x) \<leftarrow> req_headers app_request] = ?hs"
    by (simp add: rh)
  note t = only_string_headers_cross
             [of registered None 7 app_request 0 "req_headers app_request" client_init cfg0
                 ping_open ?origin]
  have c1: "?hs = headers_loop [] (req_headers app_request)"
    by (rule t [THEN conjunct1, rule_format, OF h1])
  have c2: "\<exists>pth. (ws (heap registered ! 0),
               OpenStream (tunnelId (heap registered ! 0)) (nextStreamId (heap registered ! 0))
                 (req_method app_request) pth (headers_loop [] (req_headers app_request)))
              \<in> set (drop (length (sent registered))
                        (sent (public_request None 7 app_request registered)))"
    by (rule t [THEN conjunct2, THEN conjunct1, rule_format, OF routed_registered])
  have c3: "headers_loop [] (req_headers app_request)
              = [(k, x). (k, HStr x) \<leftarrow> req_headers app_request]"
    by (rule t [THEN conjunct2, THEN conjunct2, THEN conjunct2, THEN conjunct2, THEN conjunct1,
                rule_format, OF h2])
  have c4: "''set-cookie'' \<notin> fst ` set (headers_loop [] (req_headers app_request))"
    by (rule t [THEN conjunct2, THEN conjunct2, THEN conjunct2, THEN conjunct2, THEN conjunct2,
                THEN conjunct1, rule_format, OF h3])
  have c5: "(Some 200 = Some (502::nat) \<and> Some ([]::headers) = None)
            \<or> (\<exists>status rh parts fin. ?origin = Response status rh parts fin
                 \<and> Some 200 = Some status \<and> Some [] = Some (objectifyHeaders rh))"
    by (rule t [THEN conjunct2, THEN conjunct2, THEN conjunct2, THEN conjunct2, THEN conjunct2,
                THEN conjunct2, THEN conjunct1, rule_format, OF h4])
  then have c6: "\<exists>status rh parts fin. ?origin = Response status rh parts fin
                 \<and> Some 200 = Some status \<and> Some [] = Some (objectifyHeaders rh)"
    by simp
  from c3 c have c7: "headers_loop [] (req_headers app_request) = ?hs" by simp
  show ?thesis
    by (intro conjI) (rule c7, rule c2, rule c1, rule c4, rule w, rule c6)
qed

subsection \<open>The frames of a response\<close>

lemma filter_resp_data [simp]:
  "filter (is_resp_start sid) (map (\<lambda>chunk. RespData tid sid' (Some chunk)) cs) = []"
  "filter (is_end_res sid) (map (\<lambda>chunk. RespData tid sid' (Some chunk)) cs) = []"
  by (induction cs) simp_all

text \<open>
  Claim C3, as the code has it. Both handlers send the frames of \<open>response_frames\<close> and
  nothing else. Among them is exactly one response-side \<open>END\<close>, the last frame. There is
  one \<open>RESP_START\<close>, except when the body of the origin's response throws after the
  head was forwarded: then the frames are the \<open>RESP_START\<close> of the origin's status, the
  chunks read so far, a second \<open>RESP_START\<close> with 502, and \<open>END\<close>. When the request
  itself throws, the frames are \<open>RESP_START\<close> with 502 and \<open>END\<close>.
\<close>

theorem response_frame_discipline:
  "wire (handleOpenStream cfg tid sid m pth hs given origin st)
     = wire st @ response_frames tid sid origin
   \<and> wire (handleBufferedRequest cfg sid entry origin st)
     = wire st @ response_frames (ctx_tunnelId entry) sid origin
   \<and> length (filter (is_end_res sid) (response_frames tid sid origin)) = 1
   \<and> length (filter (is_resp_start sid) (response_frames tid sid origin))
     = (case origin of Response status rh parts BodyThrows \<Rightarrow> 2 | _ \<Rightarrow> 1)
   \<and> (origin = RequestThrows
      \<longrightarrow> response_frames tid sid origin
          = [RespStart tid sid (Some 502) None, End tid sid (Some Res)])
   \<and> (\<forall>status rh parts. origin = Response status rh parts BodyThrows
      \<longrightarrow> response_frames tid sid origin
          = RespStart tid sid (Some status) (Some (objectifyHeaders rh))
            # map (\<lambda>chunk. RespData tid sid (Some chunk)) (filter (\<lambda>chunk. chunk \<noteq> []) parts)
            @ [RespStart tid sid (Some 502) None, End tid sid (Some Res)])
   \<and> (\<forall>status rh parts. origin = Response status rh parts Eof
      \<longrightarrow> response_frames tid sid origin
          = RespStart tid sid (Some status) (Some (objectifyHeaders rh))
            # map (\<lambda>chunk. RespData tid sid (Some chunk)) (filter (\<lambda>chunk. chunk \<noteq> []) parts)
            @ [End tid sid (Some Res)])"
  by (cases origin)
     (auto simp: wire_handleOpenStream wire_handleBufferedRequest response_frames_def
        catch_frames_def split: body_end.splits)

text \<open>
  Claim C3 as amended, at three answers of the origin: the request throws; the body
  yields \<open>po\<close> and throws; the body yields \<open>po\<close>, an empty chunk and \<open>ng\<close>, and ends.
\<close>

theorem response_frame_discipline_witness:
  "response_frames ''t_k3j5x9q2'' 1 RequestThrows
     = [RespStart ''t_k3j5x9q2'' 1 (Some 502) None, End ''t_k3j5x9q2'' 1 (Some Res)]
   \<and> response_frames ''t_k3j5x9q2'' 1 (Response 200 set_cookie_head [''po''] BodyThrows)
     = [RespStart ''t_k3j5x9q2'' 1 (Some 200) (Some []),
        RespData ''t_k3j5x9q2'' 1 (Some ''po''),
        RespStart ''t_k3j5x9q2'' 1 (Some 502) None,
        End ''t_k3j5x9q2'' 1 (Some Res)]
   \<and> response_frames ''t_k3j5x9q2'' 1 (Response 200 set_cookie_head [''po'', '''', ''ng''] Eof)
     = [RespStart ''t_k3j5x9q2'' 1 (Some 200) (Some []),
        RespData ''t_k3j5x9q2'' 1 (Some ''po''),
        RespData ''t_k3j5x9q2'' 1 (Some ''ng''),
        End ''t_k3j5x9q2'' 1 (Some Res)]"
proof -
  let ?t = "''t_k3j5x9q2''"
  have o: "objectifyHeaders set_cookie_head = []"
    by code_simp
  have a: "response_frames ?t 1 RequestThrows
           = [RespStart ?t 1 (Some 502) None, End ?t 1 (Some Res)]"
    by (rule response_frame_discipline
               [THEN conjunct2, THEN conjunct2, THEN conjunct2, THEN conjunct2, THEN conjunct1,
                rule_format, OF refl])
  have b: "response_frames ?t 1 (Response 200 set_cookie_head [''po''] BodyThrows)
           = RespStart ?t 1 (Some 200) (Some (objectifyHeaders set_cookie_head))
             # map (\<lambda>chunk. RespData ?t 1 (Some chunk)) (filter (\<lambda>chunk. chunk \<noteq> []) [''po''])
             @ [RespStart ?t 1 (Some 502) None, End ?t 1 (Some Res)]"
    by (rule response_frame_discipline
               [THEN conjunct2, THEN conjunct2, THEN conjunct2, THEN conjunct2, THEN conjunct2,
                THEN conjunct1, rule_format, OF refl])
  have c: "response_frames ?t 1 (Response 200 set_cookie_head [''po'', '''', ''ng''] Eof)
           = RespStart ?t 1 (Some 200) (Some (objectifyHeaders set_cookie_head))
             # map (\<lambda>chunk. RespData ?t 1 (Some chunk))
                 (filter (\<lambda>chunk. chunk \<noteq> []) [''po'', '''', ''ng''])
             @ [End ?t 1 (Some Res)]"
    by (rule response_frame_discipline
               [THEN conjunct2, THEN conjunct2, THEN conjunct2, THEN conjunct2, THEN conjunct2,
                THEN conjunct2, rule_format, OF refl])
  from a b c show ?thesis by (simp add: o)
qed

text \<open>
  Claim C3 as stated fails. The origin answers 200 with its headers, its body yields
  \<open>po\<close> and then throws (the connection to the origin is reset, say). The client has
  already sent \<open>RESP_START\<close> with 200 (and the empty header map that
  \<open>objectifyHeaders\<close> makes of a plain object); the \<open>catch\<close> block sends a second
  \<open>RESP_START\<close>, with 502: two \<open>RESP_START\<close> frames on one stream.
\<close>

theorem second_resp_start_after_body_error:
  "wire (client_message cfg0 ping_open (Response 200 set_cookie_head [''po''] BodyThrows)
           client_init)
   = [RespStart ''t_k3j5x9q2'' 1 (Some 200) (Some []),
      RespData ''t_k3j5x9q2'' 1 (Some ''po''),
      RespStart ''t_k3j5x9q2'' 1 (Some 502) None,
      End ''t_k3j5x9q2'' 1 (Some Res)]
   \<and> length (filter (is_resp_start 1)
        (wire (client_message cfg0 ping_open (Response 200 set_cookie_head [''po''] BodyThrows)
                 client_init))) = 2"
  by code_simp

subsection \<open>The client's stream map\<close>

text \<open>
  \<open>handleBufferedRequest\<close> removes the stream in its \<open>finally\<close> block;
  \<open>handleOpenStream\<close>, called with the body stream as it always is, leaves the map as
  it found it.
\<close>

lemma handleBufferedRequest_removes:
  "map_of (cstreams (handleBufferedRequest cfg sid entry origin st)) sid = None"
  by (simp add: handleBufferedRequest_def Let_def AList.delete_conv)

lemma handleOpenStream_keeps:
  "cstreams (handleOpenStream cfg tid sid m pth hs True origin st) = cstreams st"
  by (simp add: handleOpenStream_def Let_def)

text \<open>
  Claim C9, which the code breaks. A \<open>GET\<close> is handled in stream mode. When the origin
  answers and the client has sent \<open>END\<close> for the response, and also when the request
  throws and the client has sent 502 and \<open>END\<close>, the stream is still in the client's
  map. A \<open>POST\<close>, handled in buffer mode, is removed from the map.
\<close>

theorem stream_mode_entry_stays:
  "wire (client_message cfg0 ping_open (Response 200 set_cookie_head [''pong''] Eof) client_init)
   = [RespStart ''t_k3j5x9q2'' 1 (Some 200) (Some []),
      RespData ''t_k3j5x9q2'' 1 (Some ''pong''),
      End ''t_k3j5x9q2'' 1 (Some Res)]
   \<and> map_of (cstreams (client_message cfg0 ping_open (Response 200 set_cookie_head [''pong''] Eof)
                          client_init)) 1
     = Some \<lparr>mode = StreamMode, body = Some ([], False), chunks = None,
             ctx_headers = [(''host'', ''app.localhost''), (''accept'', ''*/*'')],
             ctx_method = ''GET'', ctx_path = ''/ping'', ctx_tunnelId = ''t_k3j5x9q2''\<rparr>
   \<and> wire (client_message cfg0 ping_open RequestThrows client_init)
     = [RespStart ''t_k3j5x9q2'' 1 (Some 502) None, End ''t_k3j5x9q2'' 1 (Some Res)]
   \<and> map_of (cstreams (client_message cfg0 ping_open RequestThrows client_init)) 1
     = Some \<lparr>mode = StreamMode, body = Some ([], False), chunks = None,
             ctx_headers = [(''host'', ''app.localhost''), (''accept'', ''*/*'')],
             ctx_method = ''GET'', ctx_path = ''/ping'', ctx_tunnelId = ''t_k3j5x9q2''\<rparr>
   \<and> map_of (cstreams (client_run cfg0 client_init
                 [(echo_open, RequestThrows),
                  (ReqData ''t_k3j5x9q2'' 2 (Some ''n=3''), RequestThrows),
                  (End ''t_k3j5x9q2'' 2 (Some Req), Response 200 set_cookie_head [''n=3''] Eof)])) 2
     = None
   \<and> wire (client_run cfg0 client_init
             [(echo_open, RequestThrows),
              (ReqData ''t_k3j5x9q2'' 2 (Some ''n=3''), RequestThrows),
              (End ''t_k3j5x9q2'' 2 (Some Req), Response 200 set_cookie_head [''n=3''] Eof)])
     = [RespStart ''t_k3j5x9q2'' 2 (Some 200) (Some []),
        RespData ''t_k3j5x9q2'' 2 (Some ''n=3''),
        End ''t_k3j5x9q2'' 2 (Some Res)]"
  by code_simp

end
